theory Spec2Isabelle
  imports Main
begin

section \<open>Values of the host language\<close>

text \<open>
  The program is \<^verbatim>\<open>src/App.tsx\<close>. Its codec serialises object graphs that may share
  and cycle, so objects live in an explicit store: a value is a primitive or a
  reference, and the heap maps addresses to objects. Numbers are the integer counters
  of the profile; strings are byte strings (identity ids are ASCII).
\<close>

type_synonym addr = nat

datatype jsval =
    VUndefined
  | VNull
  | VBool bool
  | VNum int
  | VStr string
  | VRef addr

text \<open>
  What \<^verbatim>\<open>Object.prototype.toString\<close> sees of an ordinary object: an object literal and
  an instance of a user-defined class both answer \<^verbatim>\<open>[object Object]\<close>; a built-in such
  as \<^verbatim>\<open>Map\<close> or \<^verbatim>\<open>RegExp\<close> answers with its own tag.
\<close>

datatype proto =
    ObjectProto
  | ClassProto string
  | BuiltinProto string

text \<open>
  What the call \<^verbatim>\<open>value.toDate()\<close> of line 38 gives back, for an object that is no
  timestamp of the remote store: a valid \<^verbatim>\<open>Date\<close>, an invalid \<^verbatim>\<open>Date\<close>, or a value that is
  no \<^verbatim>\<open>Date\<close> and has no \<^verbatim>\<open>toISOString\<close>.
\<close>

datatype toDate_result = ValidDate int | InvalidDate | NotADate

text \<open>
  \<open>ODate None\<close> is an invalid \<^verbatim>\<open>Date\<close> (time value NaN). \<open>OSet\<close> lists the members in
  insertion order. \<open>OTimestamp s n\<close> is the \<^verbatim>\<open>Timestamp\<close> of the remote store's library
  (imported at line 3), with its seconds and nanoseconds: it has a \<^verbatim>\<open>toDate\<close> method
  and a \<^verbatim>\<open>toJSON\<close> method. \<open>OToDate r\<close> is any other object with a callable \<^verbatim>\<open>toDate\<close>
  property and no \<^verbatim>\<open>toJSON\<close>. \<open>OObject\<close> carries the own enumerable string-keyed
  properties in enumeration order.
\<close>

datatype obj =
    ODate "int option"
  | OSet "jsval list"
  | OTimestamp int int
  | OToDate toDate_result
  | OArray "jsval list"
  | OObject proto "(string \<times> jsval) list"

type_synonym heap = "(addr \<times> obj) list"

datatype json =
    JNull
  | JBool bool
  | JNum int
  | JStr string
  | JArr "json list"
  | JObj "(string \<times> json) list"

datatype error = TypeError | RangeError | SyntaxError | DanglingRef

text \<open>
  The host's \<^verbatim>\<open>Date\<close> implementation: \<^verbatim>\<open>Date.prototype.toISOString\<close> on a valid time
  value, and the time value \<^verbatim>\<open>new Date(string)\<close> parses (\<open>None\<close> for NaN). Parsing of
  texts outside the ISO format is implementation-defined, so both are parameters.
\<close>

record runtime =
  toISOString :: "int \<Rightarrow> string"
  dateParse :: "string \<Rightarrow> int option"

section \<open>The replacer (App.tsx, lines 13-52)\<close>

fun objectToString :: "obj \<Rightarrow> string" where
  "objectToString (ODate _) = ''[object Date]''"
| "objectToString (OSet _) = ''[object Set]''"
| "objectToString (OTimestamp _ _) = ''[object Object]''"
| "objectToString (OToDate _) = ''[object Object]''"
| "objectToString (OArray _) = ''[object Array]''"
| "objectToString (OObject (BuiltinProto t) _) = ''[object '' @ t @ '']''"
| "objectToString (OObject _ _) = ''[object Object]''"

text \<open>
  The replacer is called with a value of the heap or with the new plain object that a
  \<^verbatim>\<open>toJSON\<close> method has made, and returns the value it was given, \<^verbatim>\<open>undefined\<close>, a new
  string, or the new array of \<^verbatim>\<open>Array.from\<close>. The new objects are no objects of the
  heap: nothing else references them.
\<close>

datatype replaced =
    Existing jsval
  | FreshArray "jsval list"
  | FreshObject "(string \<times> jsval) list"

text \<open>
  The time value of \<^verbatim>\<open>Timestamp.toDate()\<close>: the milliseconds of the seconds and
  nanoseconds. The library admits only timestamps whose date is valid.
\<close>

definition timestampMillis :: "int \<Rightarrow> int \<Rightarrow> int" where
  "timestampMillis s n = s * 1000 + n div 1000000"

text \<open>
  Lines 30-50 for an object of the heap that \<open>seen\<close> does not hold. An invalid \<^verbatim>\<open>Date\<close>
  makes \<^verbatim>\<open>toISOString\<close> throw a \<^verbatim>\<open>RangeError\<close>; calling \<^verbatim>\<open>toISOString\<close> on what is no
  \<^verbatim>\<open>Date\<close> throws a \<^verbatim>\<open>TypeError\<close>.
\<close>

definition replaceObject :: "runtime \<Rightarrow> addr \<Rightarrow> obj \<Rightarrow> error + replaced" where
  "replaceObject rt a ob =
     (case ob of
        ODate None \<Rightarrow> Inl RangeError
      | ODate (Some t) \<Rightarrow> Inr (Existing (VStr (toISOString rt t)))
      | OSet xs \<Rightarrow> Inr (FreshArray xs)
      | OTimestamp s n \<Rightarrow> Inr (Existing (VStr (toISOString rt (timestampMillis s n))))
      | OToDate (ValidDate t) \<Rightarrow> Inr (Existing (VStr (toISOString rt t)))
      | OToDate InvalidDate \<Rightarrow> Inl RangeError
      | OToDate NotADate \<Rightarrow> Inl TypeError
      | OArray xs \<Rightarrow> Inr (Existing (VRef a))
      | OObject p fs \<Rightarrow>
          if objectToString ob = ''[object Object]'' then Inr (Existing (VRef a))
          else Inr (Existing VUndefined))"

text \<open>
  One call of the closure returned by \<^verbatim>\<open>jsonReplacer()\<close>. The \<^verbatim>\<open>WeakSet seen\<close> is
  passed in and returned. The key is used by the source in its \<^verbatim>\<open>console.warn\<close> texts
  only, which are not modelled. A new plain object is not in \<open>seen\<close>, has none of the
  special shapes, and is returned; that \<open>seen\<close> then holds it has no effect, since no
  later value is that object.
\<close>

definition jsonReplacer ::
  "runtime \<Rightarrow> heap \<Rightarrow> addr set \<Rightarrow> replaced \<Rightarrow> error + replaced \<times> addr set" where
  "jsonReplacer rt h seen v =
     (case v of
        Existing (VRef a) \<Rightarrow>
          if a \<in> seen then Inr (Existing VUndefined, seen)
          else (case map_of h a of
                  None \<Rightarrow> Inl DanglingRef
                | Some ob \<Rightarrow>
                    (case replaceObject rt a ob of
                       Inl e \<Rightarrow> Inl e
                     | Inr r \<Rightarrow> Inr (r, insert a seen)))
      | _ \<Rightarrow> Inr (v, seen))"

section \<open>JSON.stringify with a replacer function\<close>

text \<open>
  \<^verbatim>\<open>SerializeJSONProperty\<close> of ECMA-262 first calls the value's \<^verbatim>\<open>toJSON\<close> method, when it
  has one, and passes the result to the replacer. Two of the objects modelled here have
  one. \<^verbatim>\<open>Date.prototype.toJSON\<close> answers \<^verbatim>\<open>null\<close> for an invalid date and
  \<^verbatim>\<open>toISOString()\<close> otherwise. \<^verbatim>\<open>Timestamp.toJSON\<close> of the remote store's library answers
  a new plain object with the type tag, the seconds and the nanoseconds.
\<close>

fun toJSON :: "runtime \<Rightarrow> heap \<Rightarrow> jsval \<Rightarrow> replaced" where
  "toJSON rt h (VRef a) =
     (case map_of h a of
        Some (ODate (Some t)) \<Rightarrow> Existing (VStr (toISOString rt t))
      | Some (ODate None) \<Rightarrow> Existing VNull
      | Some (OTimestamp s n) \<Rightarrow>
          FreshObject [(''type'', VStr ''firestore/timestamp/1.0''),
                       (''seconds'', VNum s), (''nanoseconds'', VNum n)]
      | _ \<Rightarrow> Existing (VRef a))"
| "toJSON rt h v = Existing v"

text \<open>
  The serialiser threads the replacer's \<open>seen\<close> set through the traversal; \<open>stack\<close> is
  the serialiser's own list of the objects being serialised, whose repetition is the
  \<^verbatim>\<open>TypeError\<close> of a cyclic structure. A result is \<open>None\<close> when the nesting bound was
  reached, \<open>Some (Inl e)\<close> when \<open>e\<close> was thrown, and otherwise the value with the
  \<open>seen\<close> set after it.
\<close>

type_synonym 'a outcome = "(error + 'a \<times> addr set) option"

definition mapOutcome :: "('a \<Rightarrow> 'b) \<Rightarrow> 'a outcome \<Rightarrow> 'b outcome" where
  "mapOutcome g r =
     (case r of
        None \<Rightarrow> None
      | Some (Inl e) \<Rightarrow> Some (Inl e)
      | Some (Inr (x, seen)) \<Rightarrow> Some (Inr (g x, seen)))"

text \<open>\<^verbatim>\<open>SerializeJSONArray\<close>: an element that serialises to \<^verbatim>\<open>undefined\<close> is written \<^verbatim>\<open>null\<close>.\<close>

primrec serElems ::
  "(addr set \<Rightarrow> jsval \<Rightarrow> (json option) outcome) \<Rightarrow> addr set \<Rightarrow> jsval list \<Rightarrow> (json list) outcome"
where
  "serElems ser seen [] = Some (Inr ([], seen))"
| "serElems ser seen (x # xs) =
     (case ser seen x of
        None \<Rightarrow> None
      | Some (Inl e) \<Rightarrow> Some (Inl e)
      | Some (Inr (r, seen1)) \<Rightarrow>
          mapOutcome (\<lambda>js. (case r of None \<Rightarrow> JNull | Some j \<Rightarrow> j) # js)
            (serElems ser seen1 xs))"

text \<open>\<^verbatim>\<open>SerializeJSONObject\<close>: a property that serialises to \<^verbatim>\<open>undefined\<close> is left out.\<close>

primrec serFields ::
  "(addr set \<Rightarrow> jsval \<Rightarrow> (json option) outcome) \<Rightarrow> addr set \<Rightarrow> (string \<times> jsval) list
    \<Rightarrow> ((string \<times> json) list) outcome"
where
  "serFields ser seen [] = Some (Inr ([], seen))"
| "serFields ser seen (kx # kvs) =
     (case ser seen (snd kx) of
        None \<Rightarrow> None
      | Some (Inl e) \<Rightarrow> Some (Inl e)
      | Some (Inr (r, seen1)) \<Rightarrow>
          mapOutcome (\<lambda>js. (case r of None \<Rightarrow> js | Some j \<Rightarrow> (fst kx, j) # js))
            (serFields ser seen1 kvs))"

fun primJson :: "jsval \<Rightarrow> json option" where
  "primJson VNull = Some JNull"
| "primJson (VBool b) = Some (JBool b)"
| "primJson (VNum n) = Some (JNum n)"
| "primJson (VStr s) = Some (JStr s)"
| "primJson _ = None"

text \<open>
  An object that reaches the serialiser is an array or is written with its own
  enumerable properties; a \<^verbatim>\<open>Date\<close> or \<^verbatim>\<open>Set\<close> has none.
\<close>

definition serObject ::
  "(addr set \<Rightarrow> jsval \<Rightarrow> (json option) outcome) \<Rightarrow> addr set \<Rightarrow> obj \<Rightarrow> (json option) outcome"
where
  "serObject ser seen ob =
     (case ob of
        OArray xs \<Rightarrow> mapOutcome (\<lambda>js. Some (JArr js)) (serElems ser seen xs)
      | OObject p fs \<Rightarrow> mapOutcome (\<lambda>js. Some (JObj js)) (serFields ser seen fs)
      | _ \<Rightarrow> Some (Inr (Some (JObj []), seen)))"

text \<open>
  What the serialiser does with the replacer's answer; \<open>ser\<close> serialises a property
  one level deeper, given the stack there.
\<close>

definition serReplaced ::
  "heap \<Rightarrow> (addr list \<Rightarrow> addr set \<Rightarrow> jsval \<Rightarrow> (json option) outcome) \<Rightarrow> addr list \<Rightarrow> addr set
    \<Rightarrow> replaced \<Rightarrow> (json option) outcome"
where
  "serReplaced h ser stack seen r =
     (case r of
        FreshArray xs \<Rightarrow> mapOutcome (\<lambda>js. Some (JArr js)) (serElems (ser stack) seen xs)
      | FreshObject fs \<Rightarrow> mapOutcome (\<lambda>js. Some (JObj js)) (serFields (ser stack) seen fs)
      | Existing (VRef a) \<Rightarrow>
          (case map_of h a of
             None \<Rightarrow> Some (Inl DanglingRef)
           | Some ob \<Rightarrow>
               if a \<in> set stack then Some (Inl TypeError)
               else serObject (ser (a # stack)) seen ob)
      | Existing v \<Rightarrow> Some (Inr (primJson v, seen)))"

text \<open>
  \<^verbatim>\<open>SerializeJSONProperty\<close>, after the holder's property has been read. The second
  argument bounds the nesting depth.
\<close>

primrec serProp ::
  "runtime \<Rightarrow> nat \<Rightarrow> heap \<Rightarrow> addr list \<Rightarrow> addr set \<Rightarrow> jsval \<Rightarrow> (json option) outcome"
where
  "serProp rt 0 h stack seen v = None"
| "serProp rt (Suc f) h stack seen v =
     (case jsonReplacer rt h seen (toJSON rt h v) of
        Inl e \<Rightarrow> Some (Inl e)
      | Inr (r, seen1) \<Rightarrow> serReplaced h (serProp rt f h) stack seen1 r)"

text \<open>
  \<^verbatim>\<open>JSON.stringify(value, jsonReplacer())\<close>: a new \<open>seen\<close> set and an empty stack. The
  result \<open>Some (Inr None)\<close> is \<^verbatim>\<open>undefined\<close>. The depth bound is two more than the number
  of objects of the heap: every level of nesting is an object of the heap that the
  replacer had not seen, but for the new object of a \<^verbatim>\<open>toJSON\<close>, which holds primitives.
\<close>

definition stringify :: "runtime \<Rightarrow> heap \<Rightarrow> jsval \<Rightarrow> (error + json option) option" where
  "stringify rt h v =
     (case serProp rt (Suc (Suc (length h))) h [] {} v of
        None \<Rightarrow> None
      | Some (Inl e) \<Rightarrow> Some (Inl e)
      | Some (Inr (r, seen)) \<Rightarrow> Some (Inr r))"

section \<open>JSON.parse with the reviver (App.tsx, lines 75-87)\<close>

text \<open>
  A value built by the program itself or by \<^verbatim>\<open>JSON.parse\<close> shares no object, so it is
  a tree. \<open>PDate\<close> is a valid \<^verbatim>\<open>Date\<close>, \<open>PTimestamp\<close> the remote store's timestamp
  (an object with \<^verbatim>\<open>toDate\<close>), \<open>PSet\<close> a \<^verbatim>\<open>Set\<close> in insertion order.
\<close>

datatype pval =
    PUndefined
  | PNull
  | PBool bool
  | PNum int
  | PStr string
  | PDate int
  | PTimestamp int
  | PSet "pval list"
  | PArr "pval list"
  | PObj "(string \<times> pval) list"

text \<open>
  The key the reviver is called with: a property name, or the decimal text of an array
  index, which is none of the names the reviver compares with.
\<close>

datatype key = Name string | Index nat

definition dateKeys :: "string list" where
  "dateKeys = [''createdAt'', ''startDate'', ''timestamp'']"

text \<open>
  \<^verbatim>\<open>new Set(array)\<close> keeps the first of the members that are the same value; two
  objects of a tree are never the same object.
\<close>

fun sameValueZero :: "pval \<Rightarrow> pval \<Rightarrow> bool" where
  "sameValueZero PUndefined w = (w = PUndefined)"
| "sameValueZero PNull w = (w = PNull)"
| "sameValueZero (PBool b) w = (w = PBool b)"
| "sameValueZero (PNum n) w = (w = PNum n)"
| "sameValueZero (PStr s) w = (w = PStr s)"
| "sameValueZero _ w = False"

definition newSet :: "pval list \<Rightarrow> pval list" where
  "newSet vs =
     fold (\<lambda>v acc. if list_ex (\<lambda>w. sameValueZero w v) acc then acc else acc @ [v]) vs []"

definition reviver :: "runtime \<Rightarrow> key \<Rightarrow> pval \<Rightarrow> pval" where
  "reviver rt k v =
     (case (if k \<in> Name ` set dateKeys
            then (case v of PStr s \<Rightarrow> dateParse rt s | _ \<Rightarrow> None)
            else None) of
        Some t \<Rightarrow> PDate t
      | None \<Rightarrow>
          (case v of
             PArr vs \<Rightarrow>
               if k = Name ''communityPostFireReactions'' then PSet (newSet vs) else v
           | _ \<Rightarrow> v))"

text \<open>
  \<^verbatim>\<open>InternalizeJSONProperty\<close>: the members are revived first, then the reviver is called
  on the value itself.
\<close>

fun internalize :: "runtime \<Rightarrow> key \<Rightarrow> json \<Rightarrow> pval"
and internalizeElems :: "runtime \<Rightarrow> nat \<Rightarrow> json list \<Rightarrow> pval list"
and internalizeFields :: "runtime \<Rightarrow> (string \<times> json) list \<Rightarrow> (string \<times> pval) list"
where
  "internalize rt k JNull = reviver rt k PNull"
| "internalize rt k (JBool b) = reviver rt k (PBool b)"
| "internalize rt k (JNum n) = reviver rt k (PNum n)"
| "internalize rt k (JStr s) = reviver rt k (PStr s)"
| "internalize rt k (JArr js) = reviver rt k (PArr (internalizeElems rt 0 js))"
| "internalize rt k (JObj fs) = reviver rt k (PObj (internalizeFields rt fs))"
| "internalizeElems rt i [] = []"
| "internalizeElems rt i (j # js) = internalize rt (Index i) j # internalizeElems rt (Suc i) js"
| "internalizeFields rt [] = []"
| "internalizeFields rt ((k, j) # fs) = (k, internalize rt (Name k) j) # internalizeFields rt fs"

text \<open>
  A text of the local store is given by the JSON value it denotes, or is a text outside
  the JSON grammar; the grammar itself is the host's and is not modelled. The root is
  revived under the empty name.
\<close>

datatype stored_text = JsonText json | NotJson string

definition JSON_parse :: "runtime \<Rightarrow> stored_text \<Rightarrow> error + pval" where
  "JSON_parse rt txt =
     (case txt of
        NotJson s \<Rightarrow> Inl SyntaxError
      | JsonText j \<Rightarrow> Inr (internalize rt (Name []) j))"

section \<open>Object literals in the heap\<close>

text \<open>Evaluating a literal creates every object of the tree anew, the members first.\<close>

fun alloc :: "pval \<Rightarrow> heap \<Rightarrow> jsval \<times> heap"
and allocElems :: "pval list \<Rightarrow> heap \<Rightarrow> jsval list \<times> heap"
and allocFields :: "(string \<times> pval) list \<Rightarrow> heap \<Rightarrow> (string \<times> jsval) list \<times> heap"
where
  "alloc PUndefined h = (VUndefined, h)"
| "alloc PNull h = (VNull, h)"
| "alloc (PBool b) h = (VBool b, h)"
| "alloc (PNum n) h = (VNum n, h)"
| "alloc (PStr s) h = (VStr s, h)"
| "alloc (PDate t) h = (VRef (length h), h @ [(length h, ODate (Some t))])"
| "alloc (PTimestamp t) h =
     (VRef (length h), h @ [(length h, OTimestamp (t div 1000) (t mod 1000 * 1000000))])"
| "alloc (PSet ps) h =
     (case allocElems ps h of (xs, h1) \<Rightarrow> (VRef (length h1), h1 @ [(length h1, OSet xs)]))"
| "alloc (PArr ps) h =
     (case allocElems ps h of (xs, h1) \<Rightarrow> (VRef (length h1), h1 @ [(length h1, OArray xs)]))"
| "alloc (PObj fs) h =
     (case allocFields fs h of
        (kvs, h1) \<Rightarrow> (VRef (length h1), h1 @ [(length h1, OObject ObjectProto kvs)]))"
| "allocElems [] h = ([], h)"
| "allocElems (p # ps) h =
     (case alloc p h of (x, h1) \<Rightarrow> (case allocElems ps h1 of (xs, h2) \<Rightarrow> (x # xs, h2)))"
| "allocFields [] h = ([], h)"
| "allocFields ((k, p) # fs) h =
     (case alloc p h of
        (x, h1) \<Rightarrow> (case allocFields fs h1 of (kvs, h2) \<Rightarrow> ((k, x) # kvs, h2)))"

text \<open>\<^verbatim>\<open>JSON.stringify(profile, jsonReplacer())\<close> for a profile the program built.\<close>

definition stringifyProfile :: "runtime \<Rightarrow> pval \<Rightarrow> (error + json option) option" where
  "stringifyProfile rt p = (case alloc p [] of (v, h) \<Rightarrow> stringify rt h v)"

section \<open>The profile synchroniser (App.tsx, lines 55-202)\<close>

record auth_user =
  uid :: string
  isAnonymous :: bool

text \<open>Calls issued to the identity provider and to the remote store.\<close>

datatype request =
    Subscribe string
  | UpdateProfile string pval
  | UpdateDoc string "(string \<times> pval) list"

record app_state =
  user :: "auth_user option"
  userProfile :: "pval option"
  loading :: bool
  localStorage :: "string \<Rightarrow> stored_text option"
  requests :: "request list"
  console :: "string list"

fun truthy :: "pval \<Rightarrow> bool" where
  "truthy PUndefined = False"
| "truthy PNull = False"
| "truthy (PBool b) = b"
| "truthy (PNum n) = (n \<noteq> 0)"
| "truthy (PStr s) = (s \<noteq> [])"
| "truthy _ = True"

text \<open>
  The label of a guest, U+0632 U+0627 U+0626 U+0631 and a space, in UTF-8. An identity
  id is ASCII, so \<^verbatim>\<open>substring(0, 5)\<close> is \<open>take 5\<close>.
\<close>

definition guestLabel :: string where
  "guestLabel = [CHR 0xD8, CHR 0xB2, CHR 0xD8, CHR 0xA7, CHR 0xD8, CHR 0xA6, CHR 0xD8, CHR 0xB1,
     CHR 0x20]"

text \<open>The literal of lines 95-111; \<open>now\<close> is the clock reading of \<^verbatim>\<open>new Date()\<close>.\<close>

definition guestProfile :: "string \<Rightarrow> int \<Rightarrow> pval" where
  "guestProfile u now =
     PObj [(''uid'', PStr u),
           (''displayName'', PStr (guestLabel @ take 5 u)),
           (''createdAt'', PDate now),
           (''isAdmin'', PBool False),
           (''isMuted'', PBool False),
           (''commitmentDocument'', PStr []),
           (''blockedUsers'', PArr []),
           (''emergencyIndex'', PNum 0),
           (''urgeIndex'', PNum 0),
           (''storyIndex'', PNum 0),
           (''journalEntries'', PArr []),
           (''habits'', PArr []),
           (''followUpLogs'', PObj []),
           (''communityPostFireReactions'', PSet [])]"

text \<open>\<^verbatim>\<open>localStorage.setItem\<close> stores the text of its argument; of \<^verbatim>\<open>undefined\<close> too.\<close>

fun toText :: "json option \<Rightarrow> stored_text" where
  "toText (Some j) = JsonText j"
| "toText None = NotJson ''undefined''"

text \<open>
  Lines 72-92: the stored snapshot, when there is a non-empty one, is parsed; a
  \<^verbatim>\<open>SyntaxError\<close> is caught, logged, and the snapshot removed.
\<close>

definition loadGuestProfile :: "runtime \<Rightarrow> app_state \<Rightarrow> pval option \<times> app_state" where
  "loadGuestProfile rt st =
     (case localStorage st ''guestProfile'' of
        None \<Rightarrow> (None, st)
      | Some txt \<Rightarrow>
          if txt = NotJson [] then (None, st)
          else (case JSON_parse rt txt of
                  Inr p \<Rightarrow> (Some p, st)
                | Inl e \<Rightarrow>
                    (None,
                     st\<lparr>console := console st @ [''Failed to parse guest profile from localStorage''],
                        localStorage := (localStorage st)(''guestProfile'' := None)\<rparr>)))"

text \<open>
  Lines 94-116. The result is \<open>None\<close> only if the serialiser reaches its nesting bound,
  and \<open>Some (Inl e)\<close> if it throws.
\<close>

definition guestSignIn ::
  "runtime \<Rightarrow> int \<Rightarrow> auth_user \<Rightarrow> app_state \<Rightarrow> (error + app_state) option" where
  "guestSignIn rt now u st =
     (case loadGuestProfile rt st of
        (stored, st1) \<Rightarrow>
          if (case stored of None \<Rightarrow> False | Some p \<Rightarrow> truthy p)
          then Some (Inr (st1\<lparr>userProfile := stored, loading := False\<rparr>))
          else (case stringifyProfile rt (guestProfile (uid u) now) of
                  None \<Rightarrow> None
                | Some (Inl e) \<Rightarrow> Some (Inl e)
                | Some (Inr r) \<Rightarrow>
                    Some (Inr (st1\<lparr>localStorage := (localStorage st1)(''guestProfile'' \<mapsto> toText r),
                                  userProfile := Some (guestProfile (uid u) now),
                                  loading := False\<rparr>))))"

text \<open>
  The callback of \<^verbatim>\<open>onAuthStateChanged\<close> (lines 67-199); the event is the signed-in user
  or \<^verbatim>\<open>null\<close>. For an authenticated user it subscribes to the remote record.
\<close>

definition onAuthStateChanged ::
  "runtime \<Rightarrow> int \<Rightarrow> auth_user option \<Rightarrow> app_state \<Rightarrow> (error + app_state) option" where
  "onAuthStateChanged rt now ev st =
     (case ev of
        Some u \<Rightarrow>
          if isAnonymous u then guestSignIn rt now u (st\<lparr>user := Some u\<rparr>)
          else Some (Inr (st\<lparr>user := Some u, requests := requests st @ [Subscribe (uid u)]\<rparr>))
      | None \<Rightarrow>
          Some (Inr (st\<lparr>user := None,
                        userProfile := None,
                        localStorage := (localStorage st)(''guestProfile'' := None),
                        loading := False\<rparr>)))"

subsection \<open>The remote record (lines 121-163)\<close>

text \<open>
  \<^verbatim>\<open>AVATAR_OPTIONS\<close> is imported from a file that is not part of the sources and is a
  parameter. \<open>None\<close> is the index NaN, of an empty id or an empty list.
\<close>

definition avatarIndex :: "string \<Rightarrow> string list \<Rightarrow> nat option" where
  "avatarIndex u opts =
     (case u of
        [] \<Rightarrow> None
      | c # cs \<Rightarrow> if opts = [] then None else Some (of_char c mod length opts))"

definition defaultAvatarUrl :: "string \<Rightarrow> string list \<Rightarrow> pval" where
  "defaultAvatarUrl u opts =
     (case avatarIndex u opts of None \<Rightarrow> PUndefined | Some i \<Rightarrow> PStr (opts ! i))"

text \<open>\<^verbatim>\<open>data.name\<close>: a field the record lacks reads as \<^verbatim>\<open>undefined\<close>.\<close>

definition getField :: "(string \<times> pval) list \<Rightarrow> string \<Rightarrow> pval" where
  "getField d k = (case map_of d k of None \<Rightarrow> PUndefined | Some v \<Rightarrow> v)"

text \<open>\<^verbatim>\<open>a ?? b\<close>.\<close>

definition nullish :: "pval \<Rightarrow> pval \<Rightarrow> pval" where
  "nullish v d = (if v = PUndefined \<or> v = PNull then d else v)"

text \<open>
  \<^verbatim>\<open>v?.toDate()\<close>: \<^verbatim>\<open>undefined\<close> for \<^verbatim>\<open>null\<close> and \<^verbatim>\<open>undefined\<close>, the date of a timestamp,
  and a \<^verbatim>\<open>TypeError\<close> for any other value, which has no such method.
\<close>

fun optToDate :: "pval \<Rightarrow> error + pval" where
  "optToDate PUndefined = Inr PUndefined"
| "optToDate PNull = Inr PUndefined"
| "optToDate (PTimestamp t) = Inr (PDate t)"
| "optToDate _ = Inl TypeError"

text \<open>\<^verbatim>\<open>a || b\<close>.\<close>

definition orElse :: "pval \<Rightarrow> pval \<Rightarrow> pval" where
  "orElse v d = (if truthy v then v else d)"

text \<open>The literal \<^verbatim>\<open>profileData\<close> of lines 143-161, from the record's fields.\<close>

definition profileData :: "int \<Rightarrow> string \<Rightarrow> (string \<times> pval) list \<Rightarrow> error + pval" where
  "profileData now u d =
     (case optToDate (getField d ''createdAt'') of
        Inl e \<Rightarrow> Inl e
      | Inr created \<Rightarrow>
          (case optToDate (getField d ''startDate'') of
             Inl e \<Rightarrow> Inl e
           | Inr start \<Rightarrow>
               Inr (PObj
                 [(''uid'', PStr u),
                  (''displayName'', getField d ''displayName''),
                  (''email'', getField d ''email''),
                  (''photoURL'', getField d ''photoURL''),
                  (''createdAt'', orElse created (PDate now)),
                  (''startDate'', orElse start PUndefined),
                  (''isAdmin'', nullish (getField d ''isAdmin'') (PBool False)),
                  (''isMuted'', nullish (getField d ''isMuted'') (PBool False)),
                  (''role'', nullish (getField d ''role'') PUndefined),
                  (''commitmentDocument'', nullish (getField d ''commitmentDocument'') (PStr [])),
                  (''blockedUsers'', nullish (getField d ''blockedUsers'') (PArr [])),
                  (''emergencyIndex'', nullish (getField d ''emergencyIndex'') (PNum 0)),
                  (''urgeIndex'', nullish (getField d ''urgeIndex'') (PNum 0)),
                  (''storyIndex'', nullish (getField d ''storyIndex'') (PNum 0))])))"

text \<open>
  The snapshot callback for a record that exists, with the record's data. A record with
  no truthy \<^verbatim>\<open>photoURL\<close> gets the avatar picked from the id: the two updates are issued
  and the field is set on the data at once. A \<^verbatim>\<open>TypeError\<close> of the literal leaves the
  callback before \<^verbatim>\<open>setUserProfile\<close>.
\<close>

definition onSnapshotExists ::
  "string list \<Rightarrow> int \<Rightarrow> auth_user \<Rightarrow> (string \<times> pval) list \<Rightarrow> app_state \<Rightarrow> error + app_state"
where
  "onSnapshotExists opts now u d st =
     (let pick = defaultAvatarUrl (uid u) opts;
          missing = \<not> truthy (getField d ''photoURL'');
          st1 = (if missing
                 then st\<lparr>requests := requests st @
                          [UpdateProfile (uid u) pick, UpdateDoc (uid u) [(''photoURL'', pick)]]\<rparr>
                 else st);
          d1 = (if missing then (''photoURL'', pick) # d else d)
      in case profileData now (uid u) d1 of
           Inl e \<Rightarrow> Inl e
         | Inr p \<Rightarrow> Inr (st1\<lparr>userProfile := Some p, loading := False\<rparr>))"

text \<open>The \<^verbatim>\<open>catch\<close> of the two background updates (lines 135-137).\<close>

definition avatarAssignFailed :: "app_state \<Rightarrow> app_state" where
  "avatarAssignFailed st = st\<lparr>console := console st @ [''Failed to auto-assign avatar:'']\<rparr>"

text \<open>What the caller sees (line 246): the profile held, when a user is signed in.\<close>

definition currentProfile :: "app_state \<Rightarrow> pval option" where
  "currentProfile st =
     (case user st of
        None \<Rightarrow> None
      | Some u \<Rightarrow>
          (case userProfile st of
             None \<Rightarrow> None
           | Some p \<Rightarrow> if truthy p then Some p else None))"

section \<open>A host runtime\<close>

text \<open>
  \<^verbatim>\<open>toISOString\<close> as ECMA-262 defines it (the proleptic Gregorian calendar in UTC, years
  outside 0 to 9999 written with a sign and six digits), and a \<^verbatim>\<open>Date\<close> parser that
  accepts the 24-character format \<^verbatim>\<open>YYYY-MM-DDTHH:mm:ss.sssZ\<close> and answers NaN for every
  other text. It instantiates the parameter \<open>runtime\<close> at concrete inputs.
\<close>

definition civilFromDays :: "int \<Rightarrow> int \<times> int \<times> int" where
  "civilFromDays z0 =
     (let z = z0 + 719468;
          era = z div 146097;
          doe = z mod 146097;
          yoe = (doe - doe div 1460 + doe div 36524 - doe div 146096) div 365;
          doy = doe - (365 * yoe + yoe div 4 - yoe div 100);
          mp = (5 * doy + 2) div 153;
          d = doy - (153 * mp + 2) div 5 + 1;
          m = (if mp < 10 then mp + 3 else mp - 9);
          y = yoe + era * 400
      in (if m \<le> 2 then y + 1 else y, m, d))"

definition daysFromCivil :: "int \<Rightarrow> int \<Rightarrow> int \<Rightarrow> int" where
  "daysFromCivil y m d =
     (let y1 = (if m \<le> 2 then y - 1 else y);
          era = y1 div 400;
          yoe = y1 mod 400;
          doy = (153 * (if 2 < m then m - 3 else m + 9) + 2) div 5 + d - 1;
          doe = yoe * 365 + yoe div 4 - yoe div 100 + doy
      in era * 146097 + doe - 719468)"

primrec pad :: "nat \<Rightarrow> int \<Rightarrow> string" where
  "pad 0 n = []"
| "pad (Suc w) n = pad w (n div 10) @ [''0123456789'' ! nat (n mod 10)]"

definition isoString :: "int \<Rightarrow> string" where
  "isoString t =
     (let ms = t mod 86400000
      in case civilFromDays (t div 86400000) of
           (y, m, d) \<Rightarrow>
             (if 0 \<le> y \<and> y \<le> 9999 then pad 4 y
              else (if y < 0 then ''-'' else ''+'') @ pad 6 (abs y))
             @ ''-'' @ pad 2 m @ ''-'' @ pad 2 d @ ''T'' @ pad 2 (ms div 3600000)
             @ '':'' @ pad 2 (ms div 60000 mod 60) @ '':'' @ pad 2 (ms div 1000 mod 60)
             @ ''.'' @ pad 3 (ms mod 1000) @ ''Z'')"

definition digitVal :: "char \<Rightarrow> int option" where
  "digitVal c =
     (let n = (of_char c :: nat) in if 48 \<le> n \<and> n \<le> 57 then Some (int n - 48) else None)"

primrec number :: "int \<Rightarrow> string \<Rightarrow> int option" where
  "number acc [] = Some acc"
| "number acc (c # cs) =
     (case digitVal c of None \<Rightarrow> None | Some v \<Rightarrow> number (acc * 10 + v) cs)"

definition daysInMonth :: "int \<Rightarrow> int \<Rightarrow> int" where
  "daysInMonth y m =
     (if m = 2 then (if y mod 4 = 0 \<and> (y mod 100 \<noteq> 0 \<or> y mod 400 = 0) then 29 else 28)
      else if m = 4 \<or> m = 6 \<or> m = 9 \<or> m = 11 then 30 else 31)"

definition parseIso :: "string \<Rightarrow> int option" where
  "parseIso s =
     (if length s = 24 \<and> s ! 4 = CHR ''-'' \<and> s ! 7 = CHR ''-'' \<and> s ! 10 = CHR ''T''
         \<and> s ! 13 = CHR '':'' \<and> s ! 16 = CHR '':'' \<and> s ! 19 = CHR ''.'' \<and> s ! 23 = CHR ''Z''
      then (case (number 0 (take 4 s), number 0 (take 2 (drop 5 s)),
                  number 0 (take 2 (drop 8 s)), number 0 (take 2 (drop 11 s)),
                  number 0 (take 2 (drop 14 s)), number 0 (take 2 (drop 17 s)),
                  number 0 (take 3 (drop 20 s))) of
              (Some y, Some m, Some d, Some hh, Some mm, Some ss, Some ms) \<Rightarrow>
                if 1 \<le> m \<and> m \<le> 12 \<and> 1 \<le> d \<and> d \<le> daysInMonth y m
                   \<and> hh < 24 \<and> mm < 60 \<and> ss < 60
                then Some (daysFromCivil y m d * 86400000 + hh * 3600000 + mm * 60000
                           + ss * 1000 + ms)
                else None
            | _ \<Rightarrow> None)
      else None)"

definition utcRuntime :: runtime where
  "utcRuntime = \<lparr>toISOString = isoString, dateParse = parseIso\<rparr>"

section \<open>Auxiliary predicates\<close>

definition children :: "obj \<Rightarrow> jsval list" where
  "children ob = (case ob of OSet xs \<Rightarrow> xs | OArray xs \<Rightarrow> xs | OObject p fs \<Rightarrow> map snd fs | _ \<Rightarrow> [])"

definition refOk :: "heap \<Rightarrow> jsval \<Rightarrow> bool" where
  "refOk h v = (case v of VRef a \<Rightarrow> map_of h a \<noteq> None | _ \<Rightarrow> True)"

definition closed :: "heap \<Rightarrow> bool" where
  "closed h = list_all (\<lambda>e. list_all (refOk h) (children (snd e))) h"

definition grows :: "(addr set \<Rightarrow> jsval \<Rightarrow> (json option) outcome) \<Rightarrow> bool" where
  "grows ser = (\<forall>s x r s'. ser s x = Some (Inr (r, s')) \<longrightarrow> s \<subseteq> s')"

definition returnsBelow ::
  "heap \<Rightarrow> nat \<Rightarrow> (addr set \<Rightarrow> jsval \<Rightarrow> (json option) outcome) \<Rightarrow> bool" where
  "returnsBelow h n ser = (\<forall>s x. card (fst ` set h - s) < n \<longrightarrow> ser s x \<noteq> None)"

definition noThrowAbove ::
  "heap \<Rightarrow> addr list \<Rightarrow> (addr set \<Rightarrow> jsval \<Rightarrow> (json option) outcome) \<Rightarrow> bool" where
  "noThrowAbove h st ser =
     (\<forall>s x e. set st \<subseteq> s \<longrightarrow> refOk h x \<longrightarrow> ser s x \<noteq> Some (Inl e))"

text \<open>An ordered sequence or a key-value mapping written as an object literal.\<close>

fun plainComposite :: "obj \<Rightarrow> bool" where
  "plainComposite (OArray xs) = True"
| "plainComposite (OObject ObjectProto fs) = True"
| "plainComposite _ = False"

text \<open>The objects with a \<^verbatim>\<open>toJSON\<close> method.\<close>

fun hasToJSON :: "obj \<Rightarrow> bool" where
  "hasToJSON (ODate t) = True"
| "hasToJSON (OTimestamp s n) = True"
| "hasToJSON _ = False"

text \<open>Every object with a \<^verbatim>\<open>toDate\<close> method in the heap answers a valid \<^verbatim>\<open>Date\<close>.\<close>

fun toDateValid :: "obj \<Rightarrow> bool" where
  "toDateValid (OToDate InvalidDate) = False"
| "toDateValid (OToDate NotADate) = False"
| "toDateValid _ = True"

definition toDateSafe :: "heap \<Rightarrow> bool" where
  "toDateSafe h = list_all (\<lambda>e. toDateValid (snd e)) h"

text \<open>Reading a property of a profile: \<^verbatim>\<open>undefined\<close> when the object has none of that name.\<close>

definition readProp :: "pval \<Rightarrow> string \<Rightarrow> pval" where
  "readProp p k = (case p of PObj fs \<Rightarrow> getField fs k | _ \<Rightarrow> PUndefined)"

text \<open>
  The defaults of the specification's data model, to compare the projection with: the
  flags false, the commitment text empty, the blocked users an empty sequence, the
  counters 0; the other fields have none.
\<close>

definition dataModelDefault :: "string \<Rightarrow> pval" where
  "dataModelDefault k =
     (if k = ''isAdmin'' \<or> k = ''isMuted'' then PBool False
      else if k = ''commitmentDocument'' then PStr []
      else if k = ''blockedUsers'' then PArr []
      else if k = ''emergencyIndex'' \<or> k = ''urgeIndex'' \<or> k = ''storyIndex'' then PNum 0
      else PUndefined)"

text \<open>A field of the remote record that the program casts to a timestamp.\<close>

fun timestampOrAbsent :: "pval \<Rightarrow> bool" where
  "timestampOrAbsent PUndefined = True"
| "timestampOrAbsent PNull = True"
| "timestampOrAbsent (PTimestamp t) = True"
| "timestampOrAbsent _ = False"

text \<open>The snapshot that \<^verbatim>\<open>JSON.stringify\<close> writes of the guest literal.\<close>

definition guestJson :: "runtime \<Rightarrow> string \<Rightarrow> int \<Rightarrow> json" where
  "guestJson rt u now =
     JObj [(''uid'', JStr u),
           (''displayName'', JStr (guestLabel @ take 5 u)),
           (''createdAt'', JStr (toISOString rt now)),
           (''isAdmin'', JBool False),
           (''isMuted'', JBool False),
           (''commitmentDocument'', JStr []),
           (''blockedUsers'', JArr []),
           (''emergencyIndex'', JNum 0),
           (''urgeIndex'', JNum 0),
           (''storyIndex'', JNum 0),
           (''journalEntries'', JArr []),
           (''habits'', JArr []),
           (''followUpLogs'', JObj []),
           (''communityPostFireReactions'', JArr [])]"

section \<open>Values without sharing, and the round trip\<close>

text \<open>
  \<^verbatim>\<open>decode(encode(x))\<close>: the text that \<^verbatim>\<open>localStorage.setItem\<close> stores of the result of
  \<^verbatim>\<open>JSON.stringify\<close> is read back by \<^verbatim>\<open>JSON.parse\<close> with the reviver.
\<close>

definition decodeEncoded :: "runtime \<Rightarrow> heap \<Rightarrow> jsval \<Rightarrow> (error + pval) option" where
  "decodeEncoded rt h v =
     (case stringify rt h v of
        None \<Rightarrow> None
      | Some (Inl e) \<Rightarrow> Some (Inl e)
      | Some (Inr r) \<Rightarrow> Some (JSON_parse rt (toText r)))"

text \<open>
  A description of a value of the heap made of the recognised shapes only: primitives,
  valid dates, sets of strings, arrays and plain objects, each object with the address
  it lives at.
\<close>

datatype shape =
    SPrim jsval
  | SDate addr int
  | SSet addr "string list"
  | SArr addr "shape list"
  | SObj addr "(string \<times> shape) list"

fun root :: "shape \<Rightarrow> jsval" where
  "root (SPrim v) = v"
| "root (SDate a t) = VRef a"
| "root (SSet a xs) = VRef a"
| "root (SArr a ss) = VRef a"
| "root (SObj a kvs) = VRef a"

fun primOk :: "jsval \<Rightarrow> bool" where
  "primOk VNull = True"
| "primOk (VBool b) = True"
| "primOk (VNum n) = True"
| "primOk (VStr s) = True"
| "primOk _ = False"

text \<open>The heap holds the value that the shape describes.\<close>

fun inHeap :: "heap \<Rightarrow> shape \<Rightarrow> bool" where
  "inHeap h (SPrim v) = primOk v"
| "inHeap h (SDate a t) = (map_of h a = Some (ODate (Some t)))"
| "inHeap h (SSet a xs) = (map_of h a = Some (OSet (map VStr xs)))"
| "inHeap h (SArr a ss) =
     (map_of h a = Some (OArray (map root ss)) \<and> list_all (inHeap h) ss)"
| "inHeap h (SObj a kvs) =
     (map_of h a = Some (OObject ObjectProto (map (\<lambda>kv. (fst kv, root (snd kv))) kvs))
      \<and> list_all (\<lambda>kv. inHeap h (snd kv)) kvs)"

text \<open>
  The addresses of the objects other than dates, one entry for each reference to them:
  the list is distinct when no such object is referenced twice.
\<close>

fun cells :: "shape \<Rightarrow> addr list" where
  "cells (SPrim v) = []"
| "cells (SDate a t) = []"
| "cells (SSet a xs) = [a]"
| "cells (SArr a ss) = a # concat (map cells ss)"
| "cells (SObj a kvs) = a # concat (map (\<lambda>kv. cells (snd kv)) kvs)"

text \<open>The value as a tree, and the snapshot expected of it.\<close>

fun erasePrim :: "jsval \<Rightarrow> pval" where
  "erasePrim VNull = PNull"
| "erasePrim (VBool b) = PBool b"
| "erasePrim (VNum n) = PNum n"
| "erasePrim (VStr s) = PStr s"
| "erasePrim _ = PUndefined"

fun erase :: "shape \<Rightarrow> pval" where
  "erase (SPrim v) = erasePrim v"
| "erase (SDate a t) = PDate t"
| "erase (SSet a xs) = PSet (map PStr xs)"
| "erase (SArr a ss) = PArr (map erase ss)"
| "erase (SObj a kvs) = PObj (map (\<lambda>kv. (fst kv, erase (snd kv))) kvs)"

fun snapshotOf :: "runtime \<Rightarrow> shape \<Rightarrow> json" where
  "snapshotOf rt (SPrim v) = (case primJson v of None \<Rightarrow> JNull | Some j \<Rightarrow> j)"
| "snapshotOf rt (SDate a t) = JStr (toISOString rt t)"
| "snapshotOf rt (SSet a xs) = JArr (map JStr xs)"
| "snapshotOf rt (SArr a ss) = JArr (map (snapshotOf rt) ss)"
| "snapshotOf rt (SObj a kvs) = JObj (map (\<lambda>kv. (fst kv, snapshotOf rt (snd kv))) kvs)"

text \<open>
  Where the reviver gives a value back as it was, by the name it is stored under
  (\<open>None\<close> for an element of an array): a date under one of the three date names, if the
  host parses its ISO text back; a set of distinct strings under the name of the
  reactions; a string anywhere except under a date name when it parses as a date; an
  array anywhere except under the name of the reactions.
\<close>

fun revivable :: "runtime \<Rightarrow> string option \<Rightarrow> shape \<Rightarrow> bool" where
  "revivable rt nm (SPrim v) =
     (case v of
        VStr s \<Rightarrow> nm \<notin> Some ` set dateKeys \<or> dateParse rt s = None
      | _ \<Rightarrow> True)"
| "revivable rt nm (SDate a t) =
     (nm \<in> Some ` set dateKeys \<and> dateParse rt (toISOString rt t) = Some t)"
| "revivable rt nm (SSet a xs) = (nm = Some ''communityPostFireReactions'' \<and> distinct xs)"
| "revivable rt nm (SArr a ss) =
     (nm \<noteq> Some ''communityPostFireReactions'' \<and> list_all (revivable rt None) ss)"
| "revivable rt nm (SObj a kvs) = list_all (\<lambda>kv. revivable rt (Some (fst kv)) (snd kv)) kvs"

fun keyName :: "key \<Rightarrow> string option" where
  "keyName (Name n) = Some n"
| "keyName (Index i) = None"

section \<open>Concrete inputs\<close>

text \<open>An object that holds itself and an array that holds itself and the object.\<close>

definition ringHeap :: heap where
  "ringHeap =
     [(0, OObject ObjectProto [(''name'', VStr ''a''), (''next'', VRef 1), (''self'', VRef 0)]),
      (1, OArray [VRef 0, VNum 7, VRef 1])]"


text \<open>One \<^verbatim>\<open>Date\<close> referenced from two fields, and one \<^verbatim>\<open>Set\<close> referenced from two fields.\<close>

definition sharedDateHeap :: heap where
  "sharedDateHeap =
     [(0, OObject ObjectProto [(''createdAt'', VRef 1), (''startDate'', VRef 1)]),
      (1, ODate (Some 0))]"

definition sharedSetHeap :: heap where
  "sharedSetHeap =
     [(0, OObject ObjectProto [(''communityPostFireReactions'', VRef 1), (''copy'', VRef 1)]),
      (1, OSet [VStr ''p1''])]"

text \<open>
  An object literal one of whose fields holds an instance of a class (a document
  reference of the remote store's library) and another a \<^verbatim>\<open>Map\<close>.
\<close>

definition classInstanceHeap :: heap where
  "classInstanceHeap =
     [(0, OObject ObjectProto [(''ref'', VRef 1), (''cache'', VRef 2), (''urgeIndex'', VNum 1)]),
      (1, OObject (ClassProto ''DocumentReference'') [(''path'', VStr ''users/u1'')]),
      (2, OObject (BuiltinProto ''Map'') [])]"

text \<open>The state of lines 56-58 with an empty local store, and the guest of the scenario.\<close>

definition initialState :: app_state where
  "initialState =
     \<lparr>user = None, userProfile = None, loading = True, localStorage = (\<lambda>k. None),
      requests = [], console = []\<rparr>"

definition guestUser :: auth_user where
  "guestUser = \<lparr>uid = ''abc12xyz'', isAnonymous = True\<rparr>"

definition memberUser :: auth_user where
  "memberUser = \<lparr>uid = ''bXq7'', isAnonymous = False\<rparr>"

definition avatarSamples :: "string list" where
  "avatarSamples = [''a0.png'', ''a1.png'', ''a2.png'']"

text \<open>
  Two remote records: one with an avatar and a creation time but no display name, one
  with a display name and no avatar.
\<close>

definition recordWithoutName :: "(string \<times> pval) list" where
  "recordWithoutName = [(''photoURL'', PStr ''me.png''), (''createdAt'', PTimestamp 5)]"

definition recordWithoutAvatar :: "(string \<times> pval) list" where
  "recordWithoutAvatar = [(''displayName'', PStr ''Bob''), (''createdAt'', PTimestamp 5)]"

text \<open>
  A guest profile with one \<^verbatim>\<open>Date\<close> referenced from two date fields, a set of reactions
  and nested entries, as a shape and as the heap that holds it.
\<close>

definition sampleShape :: shape where
  "sampleShape =
     SObj 0 [(''uid'', SPrim (VStr ''abc12xyz'')),
             (''createdAt'', SDate 1 0),
             (''isAdmin'', SPrim (VBool False)),
             (''urgeIndex'', SPrim (VNum 3)),
             (''blockedUsers'', SArr 2 [SPrim (VStr ''u2'')]),
             (''journalEntries'',
                SArr 3 [SObj 4 [(''text'', SPrim (VStr ''day one'')), (''timestamp'', SDate 1 0)]]),
             (''communityPostFireReactions'', SSet 5 [''p1'', ''p2''])]"

definition sampleHeap :: heap where
  "sampleHeap =
     [(0, OObject ObjectProto
            [(''uid'', VStr ''abc12xyz''), (''createdAt'', VRef 1), (''isAdmin'', VBool False),
             (''urgeIndex'', VNum 3), (''blockedUsers'', VRef 2), (''journalEntries'', VRef 3),
             (''communityPostFireReactions'', VRef 5)]),
      (1, ODate (Some 0)),
      (2, OArray [VStr ''u2'']),
      (3, OArray [VRef 4]),
      (4, OObject ObjectProto [(''text'', VStr ''day one''), (''timestamp'', VRef 1)]),
      (5, OSet [VStr ''p1'', VStr ''p2''])]"

text \<open>
  A profile of recognised shapes only that does not come back as it was: \<^verbatim>\<open>blockedUsers\<close>
  and \<^verbatim>\<open>habits\<close> are the same array; the entry of the journal has a string under the
  name \<^verbatim>\<open>timestamp\<close>, a \<^verbatim>\<open>Date\<close> under the name \<^verbatim>\<open>savedAt\<close>, and an array under the name
  of the reactions. \<open>driftValue\<close> is the profile as a tree.
\<close>

definition driftHeap :: heap where
  "driftHeap =
     [(0, OObject ObjectProto
            [(''createdAt'', VRef 1), (''blockedUsers'', VRef 2), (''habits'', VRef 2),
             (''journalEntries'', VRef 3)]),
      (1, ODate (Some 0)),
      (2, OArray []),
      (3, OArray [VRef 4]),
      (4, OObject ObjectProto
            [(''timestamp'', VStr ''1970-01-01T00:00:00.000Z''), (''savedAt'', VRef 1),
             (''communityPostFireReactions'', VRef 5)]),
      (5, OArray [VStr ''p1''])]"

definition driftValue :: pval where
  "driftValue =
     PObj [(''createdAt'', PDate 0), (''blockedUsers'', PArr []), (''habits'', PArr []),
           (''journalEntries'',
              PArr [PObj [(''timestamp'', PStr ''1970-01-01T00:00:00.000Z''),
                          (''savedAt'', PDate 0),
                          (''communityPostFireReactions'', PArr [PStr ''p1''])]])]"

text \<open>
  An object that holds itself and an object whose \<^verbatim>\<open>toDate\<close> answers an invalid date; and
  one timestamp of the remote store referenced from two fields.
\<close>

definition badToDateHeap :: heap where
  "badToDateHeap =
     [(0, OObject ObjectProto [(''self'', VRef 0), (''when'', VRef 1)]),
      (1, OToDate InvalidDate)]"

definition sharedTimestampHeap :: heap where
  "sharedTimestampHeap =
     [(0, OObject ObjectProto [(''createdAt'', VRef 1), (''startDate'', VRef 1)]),
      (1, OTimestamp 5 0)]"

section \<open>Properties of the serialiser\<close>

lemma mapOutcome_simps [simp]:
  "mapOutcome g None = None"
  "mapOutcome g (Some (Inl e)) = Some (Inl e)"
  "mapOutcome g (Some (Inr (x, s))) = Some (Inr (g x, s))"
  by (simp_all add: mapOutcome_def)

lemma mapOutcome_eq_None [simp]: "mapOutcome g r = None \<longleftrightarrow> r = None"
  by (auto simp: mapOutcome_def split: option.splits sum.splits)

lemma mapOutcome_eq_Inl [simp]: "mapOutcome g r = Some (Inl e) \<longleftrightarrow> r = Some (Inl e)"
  by (auto simp: mapOutcome_def split: option.splits sum.splits)

lemma mapOutcome_eq_Inr: "mapOutcome g r = Some (Inr (y, s)) \<longleftrightarrow> (\<exists>x. r = Some (Inr (x, s)) \<and> y = g x)"
  by (auto simp: mapOutcome_def split: option.splits sum.splits)

lemma replacer_Inr:
  "jsonReplacer rt h seen v = Inr (r, seen1) \<Longrightarrow>
     seen1 = seen \<or>
     (\<exists>a. v = Existing (VRef a) \<and> a \<notin> seen \<and> map_of h a \<noteq> None \<and> seen1 = insert a seen)"
  by (auto simp: jsonReplacer_def
      split: replaced.splits jsval.splits if_splits option.splits sum.splits)

lemma replaceObject_FreshArray:
  "replaceObject rt a ob = Inr (FreshArray xs) \<Longrightarrow> ob = OSet xs"
  by (auto simp: replaceObject_def
      split: obj.splits option.splits toDate_result.splits if_splits)

lemma replaceObject_FreshObject: "replaceObject rt a ob \<noteq> Inr (FreshObject fs)"
  by (auto simp: replaceObject_def
      split: obj.splits option.splits toDate_result.splits if_splits)

lemma replaceObject_Ref:
  "replaceObject rt a ob = Inr (Existing (VRef b)) \<Longrightarrow>
     b = a \<and> ((\<exists>xs. ob = OArray xs)
       \<or> (\<exists>p fs. ob = OObject p fs \<and> objectToString ob = ''[object Object]''))"
  by (auto simp: replaceObject_def
      split: obj.splits option.splits toDate_result.splits if_splits)

lemma toJSON_cases:
  "toJSON rt h v = Existing v
   \<or> (\<exists>w. toJSON rt h v = Existing w \<and> primOk w)
   \<or> (\<exists>a s n. v = VRef a \<and> map_of h a = Some (OTimestamp s n) \<and>
        toJSON rt h v = FreshObject [(''type'', VStr ''firestore/timestamp/1.0''),
                                     (''seconds'', VNum s), (''nanoseconds'', VNum n)])"
  by (cases v) (auto split: option.splits obj.splits)

lemma replacer_prim: "primOk w \<Longrightarrow> jsonReplacer rt h seen (Existing w) = Inr (Existing w, seen)"
  by (cases w) (simp_all add: jsonReplacer_def)

lemma replacer_fresh: "jsonReplacer rt h seen (FreshObject fs) = Inr (FreshObject fs, seen)"
  by (simp add: jsonReplacer_def)

lemma replacer_existing:
  "jsonReplacer rt h seen (Existing v) = Inr (q, seen1) \<Longrightarrow>
     (\<exists>a ob. v = VRef a \<and> a \<notin> seen \<and> map_of h a = Some ob \<and> seen1 = insert a seen
        \<and> replaceObject rt a ob = Inr q)
     \<or> (seen1 = seen \<and> (\<exists>w. q = Existing w \<and> (\<forall>a. w \<noteq> VRef a)))"
  by (cases v)
     (auto simp: jsonReplacer_def split: if_splits option.splits sum.splits)

lemma replacer_FreshArray:
  assumes "jsonReplacer rt h seen (toJSON rt h v) = Inr (FreshArray xs, seen1)"
  shows "\<exists>a. a \<notin> seen \<and> map_of h a = Some (OSet xs) \<and> seen1 = insert a seen"
proof -
  from toJSON_cases [of rt h v] assms have "jsonReplacer rt h seen (Existing v) = Inr (FreshArray xs, seen1)"
    by (auto simp: replacer_prim replacer_fresh)
  from replacer_existing [OF this] show ?thesis
    by (auto dest: replaceObject_FreshArray)
qed

lemma replacer_FreshObject:
  assumes "jsonReplacer rt h seen (toJSON rt h v) = Inr (FreshObject fs, seen1)"
  shows "seen1 = seen \<and> list_all primOk (map snd fs)"
proof -
  from toJSON_cases [of rt h v] consider
    (same) "toJSON rt h v = Existing v"
    | (prim) w where "toJSON rt h v = Existing w" "primOk w"
    | (stamp) s n where "toJSON rt h v = FreshObject [(''type'', VStr ''firestore/timestamp/1.0''),
                                     (''seconds'', VNum s), (''nanoseconds'', VNum n)]"
    by blast
  then show ?thesis
  proof cases
    case same
    with assms replacer_existing [of rt h seen v "FreshObject fs" seen1] show ?thesis
      by (auto simp: replaceObject_FreshObject)
  next
    case prim
    with assms show ?thesis by (simp add: replacer_prim)
  next
    case stamp
    with assms show ?thesis by (auto simp: replacer_fresh)
  qed
qed

lemma replacer_Ref:
  assumes "jsonReplacer rt h seen (toJSON rt h v) = Inr (Existing (VRef a), seen1)"
  shows "a \<notin> seen \<and> seen1 = insert a seen \<and>
     (\<exists>ob. map_of h a = Some ob \<and> ((\<exists>xs. ob = OArray xs)
        \<or> (\<exists>p fs. ob = OObject p fs \<and> objectToString ob = ''[object Object]'')))"
proof -
  from toJSON_cases [of rt h v] assms
  have "jsonReplacer rt h seen (Existing v) = Inr (Existing (VRef a), seen1)"
    by (auto simp: replacer_prim replacer_fresh)
  from replacer_existing [OF this] show ?thesis
    by (auto dest: replaceObject_Ref)
qed

lemma growsD: "grows ser \<Longrightarrow> ser s x = Some (Inr (r, s')) \<Longrightarrow> s \<subseteq> s'"
  unfolding grows_def by blast

lemma serElems_mono:
  assumes g: "grows ser"
  shows "serElems ser seen xs = Some (Inr (rs, seen')) \<Longrightarrow> seen \<subseteq> seen'"
proof (induction xs arbitrary: seen rs)
  case Nil
  then show ?case by simp
next
  case (Cons x xs)
  from Cons.prems obtain r1 s1 rs1 where
    a: "ser seen x = Some (Inr (r1, s1))" and b: "serElems ser s1 xs = Some (Inr (rs1, seen'))"
    by (auto split: option.splits sum.splits simp: mapOutcome_eq_Inr)
  from growsD [OF g a] Cons.IH [OF b] show ?case by blast
qed

lemma serFields_mono:
  assumes g: "grows ser"
  shows "serFields ser seen kvs = Some (Inr (rs, seen')) \<Longrightarrow> seen \<subseteq> seen'"
proof (induction kvs arbitrary: seen rs)
  case Nil
  then show ?case by simp
next
  case (Cons x xs)
  from Cons.prems obtain r1 s1 rs1 where
    a: "ser seen (snd x) = Some (Inr (r1, s1))" and b: "serFields ser s1 xs = Some (Inr (rs1, seen'))"
    by (auto split: option.splits sum.splits simp: mapOutcome_eq_Inr)
  from growsD [OF g a] Cons.IH [OF b] show ?case by blast
qed

lemma serObject_mono:
  assumes g: "grows ser"
  shows "serObject ser seen ob = Some (Inr (r, seen')) \<Longrightarrow> seen \<subseteq> seen'"
  by (auto simp: serObject_def mapOutcome_eq_Inr split: obj.splits
      dest: serElems_mono [OF g] serFields_mono [OF g])

lemma serReplaced_mono:
  assumes g: "\<And>st. grows (ser st)"
  shows "serReplaced h ser stack seen q = Some (Inr (r, seen')) \<Longrightarrow> seen \<subseteq> seen'"
  by (auto simp: serReplaced_def mapOutcome_eq_Inr
      split: replaced.splits jsval.splits option.splits if_splits
      dest: serElems_mono [OF g] serFields_mono [OF g] serObject_mono [OF g])

lemma serProp_grows: "grows (serProp rt f h stack)"
proof (induction f arbitrary: stack)
  case 0
  show ?case by (simp add: grows_def)
next
  case (Suc f)
  show ?case
    unfolding grows_def
  proof (intro allI impI)
    fix s x r s'
    assume "serProp rt (Suc f) h stack s x = Some (Inr (r, s'))"
    then obtain q s1 where
      rep: "jsonReplacer rt h s (toJSON rt h x) = Inr (q, s1)"
      and ser: "serReplaced h (serProp rt f h) stack s1 q = Some (Inr (r, s'))"
      by (auto split: sum.splits)
    from rep have "s \<subseteq> s1" by (auto dest: replacer_Inr)
    moreover from ser have "s1 \<subseteq> s'" by (rule serReplaced_mono [OF Suc.IH])
    ultimately show "s \<subseteq> s'" by blast
  qed
qed

lemma serProp_mono:
  "serProp rt f h stack seen v = Some (Inr (r, seen')) \<Longrightarrow> seen \<subseteq> seen'"
  using serProp_grows by (rule growsD)



lemma card_unseen_less:
  assumes "finite D" "a \<in> D" "a \<notin> seen" "card (D - seen) < Suc f"
  shows "card (D - insert a seen) < f"
proof -
  have "D - insert a seen = (D - seen) - {a}" by blast
  moreover have "a \<in> D - seen" using assms by simp
  moreover have "finite (D - seen)" using assms by simp
  ultimately have "card (D - insert a seen) = card (D - seen) - 1 \<and> 0 < card (D - seen)"
    by (metis card_Diff_singleton card_gt_0_iff empty_iff)
  with assms(4) show ?thesis by arith
qed

lemma card_unseen_mono:
  assumes "finite D" "s \<subseteq> s'" "card (D - s) < n"
  shows "card (D - s') < n"
proof -
  have "card (D - s') \<le> card (D - s)"
    using assms(1,2) by (intro card_mono) auto
  with assms(3) show ?thesis by simp
qed


lemma serElems_returns:
  assumes g: "grows ser" and t: "returnsBelow h n ser"
  shows "card (fst ` set h - seen) < n \<Longrightarrow> serElems ser seen xs \<noteq> None"
proof (induction xs arbitrary: seen)
  case Nil
  show ?case by simp
next
  case (Cons x xs)
  from t Cons.prems have "ser seen x \<noteq> None" by (simp add: returnsBelow_def)
  then obtain y where y: "ser seen x = Some y" by blast
  show ?case
  proof (cases y)
    case (Inl e)
    with y show ?thesis by simp
  next
    case (Inr p)
    obtain r s1 where p: "p = (r, s1)" by (cases p)
    from growsD [OF g] y Inr p have "seen \<subseteq> s1" by blast
    with Cons.prems have "card (fst ` set h - s1) < n"
      by (auto intro: card_unseen_mono [of "fst ` set h" seen s1 n])
    from Cons.IH [OF this] y Inr p show ?thesis by simp
  qed
qed

lemma serFields_returns:
  assumes g: "grows ser" and t: "returnsBelow h n ser"
  shows "card (fst ` set h - seen) < n \<Longrightarrow> serFields ser seen kvs \<noteq> None"
proof (induction kvs arbitrary: seen)
  case Nil
  show ?case by simp
next
  case (Cons x xs)
  from t Cons.prems have "ser seen (snd x) \<noteq> None" by (simp add: returnsBelow_def)
  then obtain y where y: "ser seen (snd x) = Some y" by blast
  show ?case
  proof (cases y)
    case (Inl e)
    with y show ?thesis by simp
  next
    case (Inr p)
    obtain r s1 where p: "p = (r, s1)" by (cases p)
    from growsD [OF g] y Inr p have "seen \<subseteq> s1" by blast
    with Cons.prems have "card (fst ` set h - s1) < n"
      by (auto intro: card_unseen_mono [of "fst ` set h" seen s1 n])
    from Cons.IH [OF this] y Inr p show ?thesis by simp
  qed
qed

lemma serObject_returns:
  assumes g: "grows ser" and t: "returnsBelow h n ser"
  shows "card (fst ` set h - seen) < n \<Longrightarrow> serObject ser seen ob \<noteq> None"
  using serElems_returns [OF g t, of seen] serFields_returns [OF g t, of seen]
  by (cases ob) (simp_all add: serObject_def del: not_None_eq)

lemma map_of_in_dom: "map_of h a = Some ob \<Longrightarrow> a \<in> fst ` set h"
  by (metis map_of_eq_None_iff option.distinct(1))

lemma serProp_prim:
  "primOk v \<Longrightarrow> serProp rt (Suc f) h stack seen v = Some (Inr (primJson v, seen))"
  by (cases v) (simp_all add: jsonReplacer_def replaceObject_def serReplaced_def)

lemma serFields_prims:
  "list_all primOk (map snd fs) \<Longrightarrow>
   serFields (serProp rt (Suc f) h stack) seen fs
     = Some (Inr (map (\<lambda>kv. (fst kv, case primJson (snd kv) of None \<Rightarrow> JNull | Some j \<Rightarrow> j)) fs,
                  seen))"
proof (induction fs)
  case Nil
  show ?case by simp
next
  case (Cons kv fs)
  then have p: "primOk (snd kv)" and r: "list_all primOk (map snd fs)" by simp_all
  from p obtain j where j: "primJson (snd kv) = Some j" by (cases "snd kv") auto
  show ?case
    using Cons.IH [OF r] j by (simp add: serProp_prim [OF p] del: serProp.simps)
qed

lemma serProp_returns:
  "card (fst ` set h - seen) < f \<Longrightarrow> serProp rt (Suc f) h stack seen v \<noteq> None"
proof (induction f arbitrary: stack seen v)
  case 0
  then show ?case by simp
next
  case (Suc f)
  have rb: "returnsBelow h f (serProp rt (Suc f) h st)" for st
    unfolding returnsBelow_def using Suc.IH by blast
  show ?case
  proof (cases "jsonReplacer rt h seen (toJSON rt h v)")
    case (Inl e)
    then show ?thesis by (subst serProp.simps(2)) (simp del: serProp.simps)
  next
    case (Inr p)
    obtain q s1 where p: "p = (q, s1)" by (cases p)
    have "serReplaced h (serProp rt (Suc f) h) stack s1 q \<noteq> None"
    proof (cases q)
      case (FreshArray xs)
      from replacer_FreshArray Inr p FreshArray obtain a where
        a: "a \<notin> seen" "map_of h a = Some (OSet xs)" "s1 = insert a seen" by blast
      have "card (fst ` set h - s1) < f"
        unfolding a(3) using a Suc.prems
        by (auto intro!: card_unseen_less dest: map_of_in_dom)
      from serElems_returns [OF serProp_grows rb this] FreshArray
      show ?thesis by (simp add: serReplaced_def del: serProp.simps)
    next
      case (FreshObject fs)
      from replacer_FreshObject Inr p FreshObject have "list_all primOk (map snd fs)"
        by blast
      from serFields_prims [OF this] FreshObject
      show ?thesis by (simp add: serReplaced_def del: serProp.simps)
    next
      case (Existing w)
      show ?thesis
      proof (cases w)
        case (VRef a)
        from replacer_Ref Inr p Existing VRef obtain ob where
          a: "a \<notin> seen" "map_of h a = Some ob" "s1 = insert a seen" by blast
        have "card (fst ` set h - s1) < f"
          unfolding a(3) using a Suc.prems
          by (auto intro!: card_unseen_less dest: map_of_in_dom)
        from serObject_returns [OF serProp_grows rb this] Existing VRef a
        show ?thesis by (simp add: serReplaced_def del: serProp.simps)
      qed (simp_all add: Existing serReplaced_def del: serProp.simps)
    qed
    with Inr p show ?thesis by (subst serProp.simps(2)) (simp del: serProp.simps)
  qed
qed

lemma closed_children:
  "closed h \<Longrightarrow> map_of h a = Some ob \<Longrightarrow> list_all (refOk h) (children ob)"
  by (auto simp: closed_def list_all_iff dest!: map_of_SomeD)

lemma toDateSafe_valid: "toDateSafe h \<Longrightarrow> map_of h a = Some ob \<Longrightarrow> toDateValid ob"
  by (auto simp: toDateSafe_def list_all_iff dest!: map_of_SomeD)

lemma replaceObject_no_throw:
  "toDateValid ob \<Longrightarrow> (\<forall>t. ob \<noteq> ODate t) \<Longrightarrow> replaceObject rt a ob \<noteq> Inl e"
  by (cases ob rule: toDateValid.cases) (auto simp: replaceObject_def)

lemma replacer_no_throw:
  assumes "refOk h v" and "toDateSafe h"
  shows "jsonReplacer rt h seen (toJSON rt h v) \<noteq> Inl e"
proof (cases v)
  case (VRef a)
  with assms(1) obtain ob where ob: "map_of h a = Some ob" by (auto simp: refOk_def)
  note tv = toDateSafe_valid [OF assms(2) ob]
  show ?thesis
  proof (cases "hasToJSON ob")
    case True
    with VRef ob show ?thesis
      by (cases ob rule: hasToJSON.cases) (auto simp: jsonReplacer_def split: option.splits)
  next
    case False
    then have nd: "\<forall>t. ob \<noteq> ODate t" by auto
    from False ob VRef have "toJSON rt h v = Existing (VRef a)"
      by (cases ob) auto
    with ob replaceObject_no_throw [OF tv nd, of rt a] show ?thesis
      by (auto simp: jsonReplacer_def split: sum.splits)
  qed
qed (simp_all add: jsonReplacer_def)

lemma serElems_no_throw:
  assumes g: "grows ser" and t: "noThrowAbove h st ser"
  shows "set st \<subseteq> seen \<Longrightarrow> list_all (refOk h) xs \<Longrightarrow> serElems ser seen xs \<noteq> Some (Inl e)"
proof (induction xs arbitrary: seen)
  case Nil
  show ?case by simp
next
  case (Cons x xs)
  from t Cons.prems have nx: "ser seen x \<noteq> Some (Inl e)" by (simp add: noThrowAbove_def)
  show ?case
  proof (cases "ser seen x")
    case None
    then show ?thesis by simp
  next
    case (Some y)
    show ?thesis
    proof (cases y)
      case (Inl e')
      with Some t Cons.prems show ?thesis by (simp add: noThrowAbove_def)
    next
      case (Inr p)
      obtain r s1 where p: "p = (r, s1)" by (cases p)
      from growsD [OF g] Some Inr p have "seen \<subseteq> s1" by blast
      with Cons.prems have "set st \<subseteq> s1" by blast
      from Cons.IH [OF this] Cons.prems Some Inr p show ?thesis by simp
    qed
  qed
qed

lemma serFields_no_throw:
  assumes g: "grows ser" and t: "noThrowAbove h st ser"
  shows "set st \<subseteq> seen \<Longrightarrow> list_all (refOk h) (map snd kvs) \<Longrightarrow>
    serFields ser seen kvs \<noteq> Some (Inl e)"
proof (induction kvs arbitrary: seen)
  case Nil
  show ?case by simp
next
  case (Cons x xs)
  show ?case
  proof (cases "ser seen (snd x)")
    case None
    then show ?thesis by simp
  next
    case (Some y)
    show ?thesis
    proof (cases y)
      case (Inl e')
      with Some t Cons.prems show ?thesis by (simp add: noThrowAbove_def)
    next
      case (Inr p)
      obtain r s1 where p: "p = (r, s1)" by (cases p)
      from growsD [OF g] Some Inr p have "seen \<subseteq> s1" by blast
      with Cons.prems have "set st \<subseteq> s1" by blast
      from Cons.IH [OF this] Cons.prems Some Inr p show ?thesis by simp
    qed
  qed
qed

lemma serProp_no_throw:
  assumes c: "closed h" and d: "toDateSafe h"
  shows "set stack \<subseteq> seen \<Longrightarrow> refOk h v \<Longrightarrow> serProp rt f h stack seen v \<noteq> Some (Inl e)"
proof (induction f arbitrary: stack seen v e)
  case 0
  then show ?case by simp
next
  case (Suc f)
  have nt: "noThrowAbove h st (serProp rt f h st)" for st
    unfolding noThrowAbove_def using Suc.IH by blast
  show ?case
  proof (cases "jsonReplacer rt h seen (toJSON rt h v)")
    case (Inl e')
    with replacer_no_throw [OF Suc.prems(2) d] show ?thesis by blast
  next
    case (Inr p)
    obtain q s1 where p: "p = (q, s1)" by (cases p)
    have "serReplaced h (serProp rt f h) stack s1 q \<noteq> Some (Inl e)"
    proof (cases q)
      case (FreshArray xs)
      from replacer_FreshArray Inr p FreshArray obtain a where
        a: "a \<notin> seen" "map_of h a = Some (OSet xs)" "s1 = insert a seen" by blast
      from closed_children [OF c a(2)] have ch: "list_all (refOk h) xs"
        by (simp add: children_def)
      have "set stack \<subseteq> s1" using Suc.prems a by blast
      from serElems_no_throw [OF serProp_grows nt this ch] FreshArray
      show ?thesis by (simp add: serReplaced_def)
    next
      case (FreshObject fs)
      from replacer_FreshObject Inr p FreshObject have pr: "list_all primOk (map snd fs)"
        by blast
      show ?thesis
      proof (cases f)
        case 0
        then show ?thesis using FreshObject by (cases fs) (simp_all add: serReplaced_def)
      next
        case (Suc g)
        from serFields_prims [OF pr, of rt g h stack s1] FreshObject Suc
        show ?thesis by (simp add: serReplaced_def del: serProp.simps)
      qed
    next
      case (Existing w)
      show ?thesis
      proof (cases w)
        case (VRef a)
        from replacer_Ref Inr p Existing VRef obtain ob where
          a: "a \<notin> seen" "map_of h a = Some ob" "s1 = insert a seen" by blast
        have st: "set (a # stack) \<subseteq> s1" "a \<notin> set stack" using Suc.prems a by auto
        note ch = closed_children [OF c a(2)]
        have "serObject (serProp rt f h (a # stack)) s1 ob \<noteq> Some (Inl e)"
          using serElems_no_throw [OF serProp_grows nt st(1)]
            serFields_no_throw [OF serProp_grows nt st(1)] ch
          by (auto simp: serObject_def children_def split: obj.splits)
        with Existing VRef a st show ?thesis by (simp add: serReplaced_def)
      qed (simp_all add: Existing serReplaced_def)
    qed
    with Inr p show ?thesis by simp
  qed
qed




lemma utc_epoch: "dateParse utcRuntime (toISOString utcRuntime 0) = Some 0"
  by code_simp

lemma toJSON_keep:
  "map_of h a = Some ob \<Longrightarrow> \<not> hasToJSON ob \<Longrightarrow> toJSON rt h (VRef a) = Existing (VRef a)"
  by (cases ob) auto

lemma serProp_revisit:
  assumes "a \<in> seen" and "toJSON rt h (VRef a) = Existing (VRef a)"
  shows "serProp rt (Suc f) h stack seen (VRef a) = Some (Inr (None, seen))"
  using assms by (simp add: jsonReplacer_def replaceObject_def serReplaced_def)

lemma serFields_revisit:
  assumes "a \<in> seen" and "toJSON rt h (VRef a) = Existing (VRef a)"
  shows "serFields (serProp rt (Suc f) h stack) seen ((k, VRef a) # kvs)
     = serFields (serProp rt (Suc f) h stack) seen kvs"
proof -
  have "mapOutcome (\<lambda>js. js) r = r" for r :: "((string \<times> json) list) outcome"
    by (auto simp: mapOutcome_def split: option.splits sum.splits)
  then show ?thesis
    by (simp add: serProp_revisit [OF assms] del: serProp.simps)
qed

lemma serElems_revisit:
  assumes "a \<in> seen" and "toJSON rt h (VRef a) = Existing (VRef a)"
  shows "serElems (serProp rt (Suc f) h stack) seen (VRef a # xs)
     = mapOutcome (\<lambda>js. JNull # js) (serElems (serProp rt (Suc f) h stack) seen xs)"
  by (simp add: serProp_revisit [OF assms] del: serProp.simps)

lemma serProp_date:
  assumes "map_of h a = Some (ODate (Some t))"
  shows "serProp rt (Suc f) h stack seen (VRef a) = Some (Inr (Some (JStr (toISOString rt t)), seen))"
  using assms by (simp add: jsonReplacer_def replaceObject_def serReplaced_def)

lemma serProp_timestamp:
  assumes "map_of h a = Some (OTimestamp s n)"
  shows "serProp rt (Suc (Suc f)) h stack seen (VRef a)
     = Some (Inr (Some (JObj [(''type'', JStr ''firestore/timestamp/1.0''),
                              (''seconds'', JNum s), (''nanoseconds'', JNum n)]), seen))"
proof -
  have "serProp rt (Suc (Suc f)) h stack seen (VRef a)
      = serReplaced h (serProp rt (Suc f) h) stack seen
          (FreshObject [(''type'', VStr ''firestore/timestamp/1.0''),
                        (''seconds'', VNum s), (''nanoseconds'', VNum n)])"
    using assms by (subst serProp.simps(2)) (simp add: jsonReplacer_def replaceObject_def del: serProp.simps)
  moreover have "serFields (serProp rt (Suc f) h stack) seen
        [(''type'', VStr ''firestore/timestamp/1.0''), (''seconds'', VNum s), (''nanoseconds'', VNum n)]
      = Some (Inr ([(''type'', JStr ''firestore/timestamp/1.0''),
                    (''seconds'', JNum s), (''nanoseconds'', JNum n)], seen))"
    by (subst serFields_prims) simp_all
  ultimately show ?thesis
    by (simp add: serReplaced_def del: serProp.simps serFields.simps)
qed

lemma serProp_marks:
  assumes "serProp rt f h stack seen (VRef a) = Some (Inr (r, seen'))"
    and "map_of h a = Some ob" and "\<not> hasToJSON ob"
  shows "a \<in> seen'"
proof (cases f)
  case 0
  with assms show ?thesis by simp
next
  case (Suc n)
  note tj = toJSON_keep [OF assms(2,3), of rt]
  from assms(1) Suc tj obtain q s1 where
    rep: "jsonReplacer rt h seen (Existing (VRef a)) = Inr (q, s1)"
    and ser: "serReplaced h (serProp rt n h) stack s1 q = Some (Inr (r, seen'))"
    by (auto split: sum.splits)
  from rep assms(2) have "a \<in> s1"
    by (auto simp: jsonReplacer_def split: if_splits option.splits sum.splits)
  moreover from ser have "s1 \<subseteq> seen'"
    by (rule serReplaced_mono [OF serProp_grows])
  ultimately show ?thesis by blast
qed

lemma serProp_composite_text:
  assumes "serProp rt f h stack seen (VRef a) = Some (Inr (r, seen'))"
    and "map_of h a = Some ob" and "plainComposite ob" and "a \<notin> seen"
  shows "r \<noteq> None"
proof (cases f)
  case 0
  with assms show ?thesis by simp
next
  case (Suc n)
  from assms(2,3) have tj: "toJSON rt h (VRef a) = Existing (VRef a)"
    by (cases ob) auto
  from assms(2,3,4) have "jsonReplacer rt h seen (Existing (VRef a))
      = Inr (Existing (VRef a), insert a seen)"
    by (cases ob rule: plainComposite.cases) (auto simp: jsonReplacer_def replaceObject_def)
  with assms(1,2,3) Suc tj show ?thesis
    by (cases ob rule: plainComposite.cases)
       (auto simp: serReplaced_def serObject_def mapOutcome_eq_Inr split: if_splits)
qed

lemma stringify_returns:
  "stringify rt h v \<noteq> None"
proof -
  have "card (fst ` set h - {}) \<le> length h"
    by (metis Diff_empty card_image_le card_length le_trans List.finite_set)
  then have "card (fst ` set h - {}) < Suc (length h)" by simp
  then have "serProp rt (Suc (Suc (length h))) h [] {} v \<noteq> None"
    by (rule serProp_returns)
  then show ?thesis
    by (auto simp: stringify_def split: option.splits sum.splits)
qed


lemma utc_epoch_text: "toISOString utcRuntime 0 = ''1970-01-01T00:00:00.000Z''"
  by code_simp

lemma utc_epoch_parse: "dateParse utcRuntime ''1970-01-01T00:00:00.000Z'' = Some 0"
  by code_simp

lemma replacer_adds:
  "jsonReplacer rt h seen (Existing (VRef a)) = Inr (q, s1) \<Longrightarrow> a \<in> s1 \<and> seen \<subseteq> s1"
  by (auto simp: jsonReplacer_def split: if_splits option.splits sum.splits)

lemma sharedSet_eval:
  "stringify rt sharedSetHeap (VRef 0) =
     Some (Inr (Some (JObj [(''communityPostFireReactions'', JArr [JStr ''p1''])])))"
  by (simp add: stringify_def sharedSetHeap_def jsonReplacer_def replaceObject_def serReplaced_def serObject_def)


lemma stringify_guest:
  "stringifyProfile rt (guestProfile u now) = Some (Inr (Some (guestJson rt u now)))"
  by (simp add: stringifyProfile_def guestProfile_def stringify_def guestJson_def
      jsonReplacer_def replaceObject_def serReplaced_def serObject_def)

lemma parse_guest:
  "dateParse rt (toISOString rt now) = Some now \<Longrightarrow>
   JSON_parse rt (JsonText (guestJson rt u now)) = Inr (guestProfile u now)"
  by (simp add: JSON_parse_def guestJson_def guestProfile_def reviver_def dateKeys_def newSet_def)



lemma optToDate_ok:
  "timestampOrAbsent v \<Longrightarrow>
   optToDate v = Inr (case v of PTimestamp t \<Rightarrow> PDate t | _ \<Rightarrow> PUndefined)"
  by (cases v) simp_all

lemma orElse_created:
  "orElse (case v of PTimestamp t \<Rightarrow> PDate t | _ \<Rightarrow> PUndefined) (PDate now)
     = (case v of PTimestamp t \<Rightarrow> PDate t | _ \<Rightarrow> PDate now)"
  by (cases v) (simp_all add: orElse_def)

lemma orElse_start:
  "orElse (case v of PTimestamp t \<Rightarrow> PDate t | _ \<Rightarrow> PUndefined) PUndefined
     = (case v of PTimestamp t \<Rightarrow> PDate t | _ \<Rightarrow> PUndefined)"
  by (cases v) (simp_all add: orElse_def)

lemma profileData_ok:
  assumes "timestampOrAbsent (getField d ''createdAt'')"
    and "timestampOrAbsent (getField d ''startDate'')"
  shows "profileData now u d = Inr (PObj
                 [(''uid'', PStr u),
                  (''displayName'', getField d ''displayName''),
                  (''email'', getField d ''email''),
                  (''photoURL'', getField d ''photoURL''),
                  (''createdAt'', (case getField d ''createdAt'' of PTimestamp t \<Rightarrow> PDate t | _ \<Rightarrow> PDate now)),
                  (''startDate'', (case getField d ''startDate'' of PTimestamp t \<Rightarrow> PDate t | _ \<Rightarrow> PUndefined)),
                  (''isAdmin'', nullish (getField d ''isAdmin'') (PBool False)),
                  (''isMuted'', nullish (getField d ''isMuted'') (PBool False)),
                  (''role'', nullish (getField d ''role'') PUndefined),
                  (''commitmentDocument'', nullish (getField d ''commitmentDocument'') (PStr [])),
                  (''blockedUsers'', nullish (getField d ''blockedUsers'') (PArr [])),
                  (''emergencyIndex'', nullish (getField d ''emergencyIndex'') (PNum 0)),
                  (''urgeIndex'', nullish (getField d ''urgeIndex'') (PNum 0)),
                  (''storyIndex'', nullish (getField d ''storyIndex'') (PNum 0))])"
  by (simp add: profileData_def optToDate_ok [OF assms(1)] optToDate_ok [OF assms(2)]
      orElse_created orElse_start)

lemma getField_other:
  "k \<noteq> k' \<Longrightarrow> getField ((k', v) # d) k = getField d k"
  by (simp add: getField_def)

lemma getField_same: "getField ((k, v) # d) k = v"
  by (simp add: getField_def)

lemma readProp_literal:
  assumes p: "p = PObj [(''uid'', a1), (''displayName'', a2), (''email'', a3), (''photoURL'', a4),
      (''createdAt'', a5), (''startDate'', a6), (''isAdmin'', a7), (''isMuted'', a8),
      (''role'', a9), (''commitmentDocument'', a10), (''blockedUsers'', a11),
      (''emergencyIndex'', a12), (''urgeIndex'', a13), (''storyIndex'', a14)]"
  shows "readProp p ''uid'' = a1" "readProp p ''displayName'' = a2" "readProp p ''email'' = a3"
    "readProp p ''photoURL'' = a4" "readProp p ''createdAt'' = a5" "readProp p ''startDate'' = a6"
    "readProp p ''isAdmin'' = a7" "readProp p ''isMuted'' = a8" "readProp p ''role'' = a9"
    "readProp p ''commitmentDocument'' = a10" "readProp p ''blockedUsers'' = a11"
    "readProp p ''emergencyIndex'' = a12" "readProp p ''urgeIndex'' = a13"
    "readProp p ''storyIndex'' = a14"
  unfolding p by (simp_all add: readProp_def getField_def)

lemma dataModelDefault_simps:
  "dataModelDefault ''isAdmin'' = PBool False" "dataModelDefault ''isMuted'' = PBool False"
  "dataModelDefault ''commitmentDocument'' = PStr []" "dataModelDefault ''blockedUsers'' = PArr []"
  "dataModelDefault ''emergencyIndex'' = PNum 0" "dataModelDefault ''urgeIndex'' = PNum 0"
  "dataModelDefault ''storyIndex'' = PNum 0"
  by (simp_all add: dataModelDefault_def)

lemma nullish_role: "nullish v PUndefined = (if v = PNull then PUndefined else v)"
  by (simp add: nullish_def)

lemma projection_fields:
  assumes p: "profileData now u d1 = Inr p"
    and c: "timestampOrAbsent (getField d1 ''createdAt'')"
    and s: "timestampOrAbsent (getField d1 ''startDate'')"
  shows "readProp p ''uid'' = PStr u"
    and "readProp p ''displayName'' = getField d1 ''displayName''"
    and "readProp p ''email'' = getField d1 ''email''"
    and "readProp p ''photoURL'' = getField d1 ''photoURL''"
    and "readProp p ''createdAt'' =
          (case getField d1 ''createdAt'' of PTimestamp t \<Rightarrow> PDate t | _ \<Rightarrow> PDate now)"
    and "readProp p ''startDate'' =
          (case getField d1 ''startDate'' of PTimestamp t \<Rightarrow> PDate t | _ \<Rightarrow> PUndefined)"
    and "readProp p ''role'' = nullish (getField d1 ''role'') PUndefined"
    and "readProp p ''isAdmin'' = nullish (getField d1 ''isAdmin'') (dataModelDefault ''isAdmin'')"
    and "readProp p ''isMuted'' = nullish (getField d1 ''isMuted'') (dataModelDefault ''isMuted'')"
    and "readProp p ''commitmentDocument'' =
          nullish (getField d1 ''commitmentDocument'') (dataModelDefault ''commitmentDocument'')"
    and "readProp p ''blockedUsers'' =
          nullish (getField d1 ''blockedUsers'') (dataModelDefault ''blockedUsers'')"
    and "readProp p ''emergencyIndex'' =
          nullish (getField d1 ''emergencyIndex'') (dataModelDefault ''emergencyIndex'')"
    and "readProp p ''urgeIndex'' = nullish (getField d1 ''urgeIndex'') (dataModelDefault ''urgeIndex'')"
    and "readProp p ''storyIndex'' = nullish (getField d1 ''storyIndex'') (dataModelDefault ''storyIndex'')"
proof -
  note q = p [unfolded profileData_ok [OF c s], simplified, symmetric]
  note r = readProp_literal [OF q]
  show "readProp p ''uid'' = PStr u" by (rule r)
  show "readProp p ''displayName'' = getField d1 ''displayName''" by (rule r)
  show "readProp p ''email'' = getField d1 ''email''" by (rule r)
  show "readProp p ''photoURL'' = getField d1 ''photoURL''" by (rule r)
  show "readProp p ''createdAt'' =
          (case getField d1 ''createdAt'' of PTimestamp t \<Rightarrow> PDate t | _ \<Rightarrow> PDate now)"
    by (rule r)
  show "readProp p ''startDate'' =
          (case getField d1 ''startDate'' of PTimestamp t \<Rightarrow> PDate t | _ \<Rightarrow> PUndefined)"
    by (rule r)
  show "readProp p ''role'' = nullish (getField d1 ''role'') PUndefined" by (rule r)
  show "readProp p ''isAdmin'' = nullish (getField d1 ''isAdmin'') (dataModelDefault ''isAdmin'')"
    unfolding dataModelDefault_simps by (rule r)
  show "readProp p ''isMuted'' = nullish (getField d1 ''isMuted'') (dataModelDefault ''isMuted'')"
    unfolding dataModelDefault_simps by (rule r)
  show "readProp p ''commitmentDocument'' =
          nullish (getField d1 ''commitmentDocument'') (dataModelDefault ''commitmentDocument'')"
    unfolding dataModelDefault_simps by (rule r)
  show "readProp p ''blockedUsers'' =
          nullish (getField d1 ''blockedUsers'') (dataModelDefault ''blockedUsers'')"
    unfolding dataModelDefault_simps by (rule r)
  show "readProp p ''emergencyIndex'' =
          nullish (getField d1 ''emergencyIndex'') (dataModelDefault ''emergencyIndex'')"
    unfolding dataModelDefault_simps by (rule r)
  show "readProp p ''urgeIndex'' = nullish (getField d1 ''urgeIndex'') (dataModelDefault ''urgeIndex'')"
    unfolding dataModelDefault_simps by (rule r)
  show "readProp p ''storyIndex'' = nullish (getField d1 ''storyIndex'') (dataModelDefault ''storyIndex'')"
    unfolding dataModelDefault_simps by (rule r)
qed


lemma onSnapshotExists_result:
  assumes "profileData now (uid u) (if truthy (getField d ''photoURL'') then d
             else (''photoURL'', defaultAvatarUrl (uid u) opts) # d) = Inr p"
  shows "onSnapshotExists opts now u d st =
     Inr ((if truthy (getField d ''photoURL'') then st
           else st\<lparr>requests := requests st @
                  [UpdateProfile (uid u) (defaultAvatarUrl (uid u) opts),
                   UpdateDoc (uid u) [(''photoURL'', defaultAvatarUrl (uid u) opts)]]\<rparr>)
          \<lparr>userProfile := Some p, loading := False\<rparr>)"
  using assms by (cases "truthy (getField d ''photoURL'')") (simp_all add: onSnapshotExists_def Let_def)

lemma ts_recordWithoutName:
  "timestampOrAbsent (getField recordWithoutName ''createdAt'')"
  "timestampOrAbsent (getField recordWithoutName ''startDate'')"
  by (simp_all add: recordWithoutName_def getField_def)

lemma ts_recordWithoutAvatar:
  "timestampOrAbsent (getField recordWithoutAvatar ''createdAt'')"
  "timestampOrAbsent (getField recordWithoutAvatar ''startDate'')"
  by (simp_all add: recordWithoutAvatar_def getField_def)

lemma defaultAvatarUrl_pick:
  "u \<noteq> [] \<Longrightarrow> opts \<noteq> [] \<Longrightarrow>
   defaultAvatarUrl u opts = PStr (opts ! (of_char (hd u) mod length opts))"
  by (cases u) (simp_all add: avatarIndex_def defaultAvatarUrl_def)


section \<open>Properties of the round trip\<close>


lemma serProp_set:
  assumes "map_of h a = Some (OSet (map VStr xs))" and "a \<notin> seen"
  shows "serProp rt (Suc (Suc f)) h stack seen (VRef a)
     = Some (Inr (Some (JArr (map JStr xs)), insert a seen))"
proof -
  have e: "serElems (serProp rt (Suc f) h stack) s (map VStr xs) = Some (Inr (map JStr xs, s))"
    for s
    by (induction xs) (simp_all add: serProp_prim del: serProp.simps)
  have "serProp rt (Suc (Suc f)) h stack seen (VRef a)
      = serReplaced h (serProp rt (Suc f) h) stack (insert a seen) (FreshArray (map VStr xs))"
    using assms by (subst serProp.simps(2)) (simp add: jsonReplacer_def replaceObject_def del: serProp.simps)
  then show ?thesis
    by (simp add: serReplaced_def e del: serProp.simps)
qed

lemma serProp_set_bound:
  assumes "map_of h a = Some (OSet (map VStr xs))" and "a \<notin> seen"
    and "serProp rt f h stack seen (VRef a) \<noteq> None"
  shows "serProp rt f h stack seen (VRef a)
     = Some (Inr (Some (JArr (map JStr xs)), insert a seen))"
proof (cases f)
  case 0
  with assms(3) show ?thesis by simp
next
  case (Suc g)
  show ?thesis
  proof (cases g)
    case 0
    have "xs = []"
    proof (rule ccontr)
      assume "xs \<noteq> []"
      then obtain y ys where "xs = y # ys" by (cases xs) auto
      with assms Suc 0 show False
        by (simp add: jsonReplacer_def replaceObject_def serReplaced_def)
    qed
    with assms Suc 0 show ?thesis
      by (simp add: jsonReplacer_def replaceObject_def serReplaced_def)
  next
    case (Suc k)
    with \<open>f = Suc g\<close> serProp_set [OF assms(1,2)] show ?thesis by simp
  qed
qed


lemma primJson_snapshot: "primOk v \<Longrightarrow> primJson v = Some (snapshotOf rt (SPrim v))"
  by (cases v) simp_all

lemma serElems_shapes:
  assumes ih: "\<And>s seen0. s \<in> set ss \<Longrightarrow> set (cells s) \<inter> seen0 = {} \<Longrightarrow>
      ser seen0 (root s) \<noteq> None \<Longrightarrow>
      ser seen0 (root s) = Some (Inr (Some (snapshotOf rt s), seen0 \<union> set (cells s)))"
  shows "distinct (concat (map cells ss)) \<Longrightarrow> set (concat (map cells ss)) \<inter> seen = {} \<Longrightarrow>
      serElems ser seen (map root ss) \<noteq> None \<Longrightarrow>
      serElems ser seen (map root ss)
        = Some (Inr (map (snapshotOf rt) ss, seen \<union> set (concat (map cells ss))))"
  using ih
proof (induction ss arbitrary: seen)
  case Nil
  then show ?case by simp
next
  case (Cons s ss)
  have d: "set (cells s) \<inter> seen = {}" using Cons.prems(2) by auto
  have n: "ser seen (root s) \<noteq> None"
    using Cons.prems(3) by (auto split: option.splits)
  have e: "ser seen (root s) = Some (Inr (Some (snapshotOf rt s), seen \<union> set (cells s)))"
    using Cons.prems(4) [OF _ d n] by simp
  have d2: "distinct (concat (map cells ss))" using Cons.prems(1) by simp
  have i2: "set (concat (map cells ss)) \<inter> (seen \<union> set (cells s)) = {}"
    using Cons.prems(1,2) by auto
  have n2: "serElems ser (seen \<union> set (cells s)) (map root ss) \<noteq> None"
    using Cons.prems(3) e by simp
  have "serElems ser (seen \<union> set (cells s)) (map root ss)
        = Some (Inr (map (snapshotOf rt) ss, (seen \<union> set (cells s)) \<union> set (concat (map cells ss))))"
    using Cons.IH [OF d2 i2 n2] Cons.prems(4) by simp
  with e show ?case by (simp add: Un_assoc)
qed

lemma serFields_shapes:
  assumes ih: "\<And>kv seen0. kv \<in> set kvs \<Longrightarrow> set (cells (snd kv)) \<inter> seen0 = {} \<Longrightarrow>
      ser seen0 (root (snd kv)) \<noteq> None \<Longrightarrow>
      ser seen0 (root (snd kv))
        = Some (Inr (Some (snapshotOf rt (snd kv)), seen0 \<union> set (cells (snd kv))))"
  shows "distinct (concat (map (\<lambda>kv. cells (snd kv)) kvs)) \<Longrightarrow>
      set (concat (map (\<lambda>kv. cells (snd kv)) kvs)) \<inter> seen = {} \<Longrightarrow>
      serFields ser seen (map (\<lambda>kv. (fst kv, root (snd kv))) kvs) \<noteq> None \<Longrightarrow>
      serFields ser seen (map (\<lambda>kv. (fst kv, root (snd kv))) kvs)
        = Some (Inr (map (\<lambda>kv. (fst kv, snapshotOf rt (snd kv))) kvs,
                     seen \<union> set (concat (map (\<lambda>kv. cells (snd kv)) kvs))))"
  using ih
proof (induction kvs arbitrary: seen)
  case Nil
  then show ?case by simp
next
  case (Cons kv kvs)
  have d: "set (cells (snd kv)) \<inter> seen = {}" using Cons.prems(2) by auto
  have n: "ser seen (root (snd kv)) \<noteq> None"
    using Cons.prems(3) by (auto split: option.splits)
  have e: "ser seen (root (snd kv))
      = Some (Inr (Some (snapshotOf rt (snd kv)), seen \<union> set (cells (snd kv))))"
    using Cons.prems(4) [OF _ d n] by simp
  have d2: "distinct (concat (map (\<lambda>kv. cells (snd kv)) kvs))" using Cons.prems(1) by simp
  have i2: "set (concat (map (\<lambda>kv. cells (snd kv)) kvs)) \<inter> (seen \<union> set (cells (snd kv))) = {}"
    using Cons.prems(1,2) by auto
  have n2: "serFields ser (seen \<union> set (cells (snd kv))) (map (\<lambda>kv. (fst kv, root (snd kv))) kvs) \<noteq> None"
    using Cons.prems(3) e by simp
  have "serFields ser (seen \<union> set (cells (snd kv))) (map (\<lambda>kv. (fst kv, root (snd kv))) kvs)
        = Some (Inr (map (\<lambda>kv. (fst kv, snapshotOf rt (snd kv))) kvs,
             (seen \<union> set (cells (snd kv))) \<union> set (concat (map (\<lambda>kv. cells (snd kv)) kvs))))"
    using Cons.IH [OF d2 i2 n2] Cons.prems(4) by simp
  with e show ?case by (simp add: Un_assoc)
qed

lemma serProp_array_step:
  assumes "map_of h a = Some (OArray xs)" and "a \<notin> seen" and "a \<notin> set stack"
  shows "serProp rt (Suc g) h stack seen (VRef a)
     = mapOutcome (\<lambda>js. Some (JArr js)) (serElems (serProp rt g h (a # stack)) (insert a seen) xs)"
  using assms
  by (subst serProp.simps(2))
     (simp add: jsonReplacer_def replaceObject_def serReplaced_def serObject_def del: serProp.simps)

lemma serProp_object_step:
  assumes "map_of h a = Some (OObject ObjectProto fs)" and "a \<notin> seen" and "a \<notin> set stack"
  shows "serProp rt (Suc g) h stack seen (VRef a)
     = mapOutcome (\<lambda>js. Some (JObj js)) (serFields (serProp rt g h (a # stack)) (insert a seen) fs)"
  using assms
  by (subst serProp.simps(2))
     (simp add: jsonReplacer_def replaceObject_def serReplaced_def serObject_def del: serProp.simps)

lemma ser_shape:
  "inHeap h s \<Longrightarrow> distinct (cells s) \<Longrightarrow> set (cells s) \<inter> seen = {} \<Longrightarrow>
   set (cells s) \<inter> set stack = {} \<Longrightarrow> serProp rt f h stack seen (root s) \<noteq> None \<Longrightarrow>
   serProp rt f h stack seen (root s)
     = Some (Inr (Some (snapshotOf rt s), seen \<union> set (cells s)))"
proof (induction s arbitrary: f seen stack)
  case (SPrim v)
  from SPrim.prems(5) obtain g where f: "f = Suc g" by (cases f) auto
  from SPrim.prems(1) have p: "primOk v" by simp
  show ?case
    unfolding f root.simps serProp_prim [OF p] primJson_snapshot [OF p, of rt] by simp
next
  case (SDate a t)
  from SDate.prems(5) obtain g where f: "f = Suc g" by (cases f) auto
  from SDate.prems(1) have "map_of h a = Some (ODate (Some t))" by simp
  from serProp_date [OF this] show ?case unfolding f by simp
next
  case (SSet a xs)
  from SSet.prems have "map_of h a = Some (OSet (map VStr xs))" "a \<notin> seen"
    "serProp rt f h stack seen (VRef a) \<noteq> None"
    by auto
  from serProp_set_bound [OF this] show ?case by simp
next
  case (SArr a ss)
  from SArr.prems(5) obtain g where f: "f = Suc g" by (cases f) auto
  from SArr.prems have m: "map_of h a = Some (OArray (map root ss))"
    and ns: "a \<notin> seen" and nst: "a \<notin> set stack"
    and ih: "list_all (inHeap h) ss"
    and dc: "distinct (concat (map cells ss))"
    and na: "a \<notin> set (concat (map cells ss))"
    and ds: "set (concat (map cells ss)) \<inter> seen = {}"
    and dst: "set (concat (map cells ss)) \<inter> set stack = {}"
    by auto
  note step = serProp_array_step [OF m ns nst, of rt g]
  have nn: "serElems (serProp rt g h (a # stack)) (insert a seen) (map root ss) \<noteq> None"
    using SArr.prems(5) unfolding f root.simps step by simp
  have el: "serProp rt g h (a # stack) seen0 (root s)
      = Some (Inr (Some (snapshotOf rt s), seen0 \<union> set (cells s)))"
    if "s \<in> set ss" "set (cells s) \<inter> seen0 = {}"
      "serProp rt g h (a # stack) seen0 (root s) \<noteq> None" for s seen0
  proof (rule SArr.IH [OF that(1) _ _ that(2) _ that(3)])
    show "inHeap h s" using ih that(1) by (simp add: list_all_iff)
    show "distinct (cells s)" using dc that(1) by (auto simp: distinct_concat_iff)
    show "set (cells s) \<inter> set (a # stack) = {}" using na dst that(1) by auto
  qed
  have i2: "set (concat (map cells ss)) \<inter> insert a seen = {}" using na ds by auto
  from serElems_shapes [of ss "serProp rt g h (a # stack)" rt "insert a seen", OF el dc i2 nn]
  show ?case unfolding f root.simps step by simp
next
  case (SObj a kvs)
  from SObj.prems(5) obtain g where f: "f = Suc g" by (cases f) auto
  from SObj.prems have m: "map_of h a
        = Some (OObject ObjectProto (map (\<lambda>kv. (fst kv, root (snd kv))) kvs))"
    and ns: "a \<notin> seen" and nst: "a \<notin> set stack"
    and ih: "list_all (\<lambda>kv. inHeap h (snd kv)) kvs"
    and dc: "distinct (concat (map (\<lambda>kv. cells (snd kv)) kvs))"
    and na: "a \<notin> set (concat (map (\<lambda>kv. cells (snd kv)) kvs))"
    and ds: "set (concat (map (\<lambda>kv. cells (snd kv)) kvs)) \<inter> seen = {}"
    and dst: "set (concat (map (\<lambda>kv. cells (snd kv)) kvs)) \<inter> set stack = {}"
    by auto
  note step = serProp_object_step [OF m ns nst, of rt g]
  have nn: "serFields (serProp rt g h (a # stack)) (insert a seen)
      (map (\<lambda>kv. (fst kv, root (snd kv))) kvs) \<noteq> None"
    using SObj.prems(5) unfolding f root.simps step by simp
  have el: "serProp rt g h (a # stack) seen0 (root (snd kv))
      = Some (Inr (Some (snapshotOf rt (snd kv)), seen0 \<union> set (cells (snd kv))))"
    if "kv \<in> set kvs" "set (cells (snd kv)) \<inter> seen0 = {}"
      "serProp rt g h (a # stack) seen0 (root (snd kv)) \<noteq> None" for kv seen0
  proof (rule SObj.IH [OF that(1) _ _ _ that(2) _ that(3)])
    show "snd kv \<in> Basic_BNFs.snds kv" by (cases kv) (simp add: snds.simps)
    show "inHeap h (snd kv)" using ih that(1) by (simp add: list_all_iff)
    show "distinct (cells (snd kv))" using dc that(1) by (auto simp: distinct_concat_iff)
    show "set (cells (snd kv)) \<inter> set (a # stack) = {}" using na dst that(1) by auto
  qed
  have i2: "set (concat (map (\<lambda>kv. cells (snd kv)) kvs)) \<inter> insert a seen = {}"
    using na ds by auto
  from serFields_shapes [of kvs "serProp rt g h (a # stack)" rt "insert a seen", OF el dc i2 nn]
  show ?case unfolding f root.simps step by simp
qed



lemma newSet_fold_strings:
  "distinct (ys @ xs) \<Longrightarrow>
   fold (\<lambda>v acc. if list_ex (\<lambda>w. sameValueZero w v) acc then acc else acc @ [v])
     (map PStr xs) (map PStr ys) = map PStr (ys @ xs)"
proof (induction xs arbitrary: ys)
  case Nil
  show ?case by simp
next
  case (Cons x xs)
  have nx: "\<not> list_ex (\<lambda>w. sameValueZero w (PStr x)) (map PStr ys)"
    using Cons.prems by (auto simp: list_ex_iff)
  have "distinct ((ys @ [x]) @ xs)" using Cons.prems by simp
  from Cons.IH [OF this] nx show ?case by simp
qed

lemma newSet_strings: "distinct xs \<Longrightarrow> newSet (map PStr xs) = map PStr xs"
  using newSet_fold_strings [of "[]" xs] by (simp add: newSet_def)

lemma keyName_date: "k \<in> Name ` set dateKeys \<longleftrightarrow> keyName k \<in> Some ` set dateKeys"
  by (cases k) auto

lemma keyName_reactions:
  "k = Name ''communityPostFireReactions'' \<longleftrightarrow> keyName k = Some ''communityPostFireReactions''"
  by (cases k) auto

lemma reactions_not_date: "''communityPostFireReactions'' \<notin> set dateKeys"
  by (simp add: dateKeys_def)

lemma reviver_index_string: "reviver rt (Index i) (PStr x) = PStr x"
  by (simp add: reviver_def image_iff)

lemma internalize_strings: "internalizeElems rt i (map JStr xs) = map PStr xs"
  by (induction xs arbitrary: i) (simp_all add: reviver_index_string)

lemma reviver_keep:
  "(\<forall>s. v = PStr s \<longrightarrow> k \<notin> Name ` set dateKeys \<or> dateParse rt s = None) \<Longrightarrow>
   (\<forall>vs. v = PArr vs \<longrightarrow> k \<noteq> Name ''communityPostFireReactions'') \<Longrightarrow>
   reviver rt k v = v"
  by (cases v) (auto simp: reviver_def)

lemma internalizeElems_shapes:
  assumes "\<And>s k. s \<in> set ss \<Longrightarrow> keyName k = None \<Longrightarrow>
      internalize rt k (snapshotOf rt s) = erase s"
  shows "internalizeElems rt i (map (snapshotOf rt) ss) = map erase ss"
  using assms by (induction ss arbitrary: i) simp_all

lemma internalizeFields_shapes:
  assumes "\<And>kv. kv \<in> set kvs \<Longrightarrow>
      internalize rt (Name (fst kv)) (snapshotOf rt (snd kv)) = erase (snd kv)"
  shows "internalizeFields rt (map (\<lambda>kv. (fst kv, snapshotOf rt (snd kv))) kvs)
     = map (\<lambda>kv. (fst kv, erase (snd kv))) kvs"
  using assms by (induction kvs) simp_all

lemma revive_shape:
  "inHeap h s \<Longrightarrow> revivable rt (keyName k) s \<Longrightarrow>
   internalize rt k (snapshotOf rt s) = erase s"
proof (induction s arbitrary: k)
  case (SPrim v)
  then show ?case
    by (cases v) (auto simp: reviver_def keyName_date)
next
  case (SDate a t)
  then show ?case by (simp add: reviver_def keyName_date)
next
  case (SSet a xs)
  then have k: "k = Name ''communityPostFireReactions''" and d: "distinct xs"
    by (simp_all add: keyName_reactions)
  show ?case
    using reactions_not_date
    by (simp add: internalize_strings reviver_def k newSet_strings [OF d] image_iff)
next
  case (SArr a ss)
  have el: "internalize rt k' (snapshotOf rt s) = erase s"
    if "s \<in> set ss" "keyName k' = None" for s k'
    using SArr.IH [OF that(1), of k'] SArr.prems that by (simp add: list_all_iff)
  have "k \<noteq> Name ''communityPostFireReactions''"
    using SArr.prems(2) by (simp add: keyName_reactions)
  then show ?case
    by (simp add: internalizeElems_shapes [of ss rt, OF el] reviver_keep)
next
  case (SObj a kvs)
  have el: "internalize rt (Name (fst kv)) (snapshotOf rt (snd kv)) = erase (snd kv)"
    if "kv \<in> set kvs" for kv
  proof (rule SObj.IH [OF that])
    show "snd kv \<in> Basic_BNFs.snds kv" by (cases kv) (simp add: snds.simps)
    show "inHeap h (snd kv)" using SObj.prems(1) that by (simp add: list_all_iff)
    show "revivable rt (keyName (Name (fst kv))) (snd kv)"
      using SObj.prems(2) that by (simp add: list_all_iff)
  qed
  show ?case
    by (simp add: internalizeFields_shapes [of kvs rt, OF el] reviver_keep)
qed

lemma stringify_shape:
  assumes "inHeap h s" and "distinct (cells s)"
  shows "stringify rt h (root s) = Some (Inr (Some (snapshotOf rt s)))"
proof -
  have n: "serProp rt (Suc (Suc (length h))) h [] {} (root s) \<noteq> None"
    using stringify_returns [of rt h "root s"]
    by (auto simp: stringify_def split: option.splits)
  from ser_shape [OF assms _ _ n] show ?thesis
    by (simp add: stringify_def del: serProp.simps)
qed

section \<open>The claims\<close>

subsection \<open>C1\<close>

text \<open>
  C1, as amended. Round trip: take a value of the heap made of primitives (no
  \<^verbatim>\<open>undefined\<close>), valid dates, sets of distinct strings, arrays and plain objects, in which
  no object other than a date is referenced twice, every date is stored under one of the
  names \<^verbatim>\<open>createdAt\<close>, \<^verbatim>\<open>startDate\<close>, \<^verbatim>\<open>timestamp\<close> and the host parses its ISO text back to
  it, every set is stored under the name \<^verbatim>\<open>communityPostFireReactions\<close>, no array is
  stored under that name, and no string under a date name parses as a date. Then
  \<^verbatim>\<open>JSON.stringify\<close> with the replacer returns a text, and \<^verbatim>\<open>JSON.parse\<close> of it with the
  reviver is the value again: the same fields with the same primitives, each date the
  same instant, each set the same members.
\<close>

theorem snapshot_round_trip:
  assumes "inHeap h s" and "distinct (cells s)" and "revivable rt (Some []) s"
  shows "decodeEncoded rt h (root s) = Some (Inr (erase s))"
proof -
  have "revivable rt (keyName (Name [])) s" using assms(3) by simp
  from revive_shape [OF assms(1) this] stringify_shape [OF assms(1,2), of rt]
  show ?thesis by (simp add: decodeEncoded_def JSON_parse_def)
qed

theorem snapshot_round_trip_witness:
  "inHeap sampleHeap sampleShape \<and> distinct (cells sampleShape)
   \<and> revivable utcRuntime (Some []) sampleShape
   \<and> decodeEncoded utcRuntime sampleHeap (VRef 0) = Some (Inr (PObj
        [(''uid'', PStr ''abc12xyz''),
         (''createdAt'', PDate 0),
         (''isAdmin'', PBool False),
         (''urgeIndex'', PNum 3),
         (''blockedUsers'', PArr [PStr ''u2'']),
         (''journalEntries'', PArr [PObj [(''text'', PStr ''day one''), (''timestamp'', PDate 0)]]),
         (''communityPostFireReactions'', PSet [PStr ''p1'', PStr ''p2''])]))"
proof -
  have a: "inHeap sampleHeap sampleShape"
    by (simp add: sampleHeap_def sampleShape_def)
  have b: "distinct (cells sampleShape)"
    by (simp add: sampleShape_def)
  have c: "revivable utcRuntime (Some []) sampleShape"
    by (simp add: sampleShape_def dateKeys_def utc_epoch)
  from snapshot_round_trip [OF a b c] a b c show ?thesis
    by (simp add: sampleShape_def)
qed

text \<open>
  C1 as stated fails. In this profile of recognised shapes only, the field \<^verbatim>\<open>habits\<close>,
  which references the array that \<^verbatim>\<open>blockedUsers\<close> references, is missing after the round
  trip; the string under \<^verbatim>\<open>timestamp\<close> has become a date; the date under \<^verbatim>\<open>savedAt\<close> has
  become a string; and the array under the name of the reactions has become a set.
\<close>

theorem shared_or_misnamed_values_drift:
  "decodeEncoded utcRuntime driftHeap (VRef 0) = Some (Inr (PObj
        [(''createdAt'', PDate 0),
         (''blockedUsers'', PArr []),
         (''journalEntries'',
            PArr [PObj [(''timestamp'', PDate 0),
                        (''savedAt'', PStr ''1970-01-01T00:00:00.000Z''),
                        (''communityPostFireReactions'', PSet [PStr ''p1''])]])]))
   \<and> decodeEncoded utcRuntime driftHeap (VRef 0) \<noteq> Some (Inr driftValue)"
proof -
  have s: "stringify utcRuntime driftHeap (VRef 0) = Some (Inr (Some (JObj
        [(''createdAt'', JStr ''1970-01-01T00:00:00.000Z''),
         (''blockedUsers'', JArr []),
         (''journalEntries'',
            JArr [JObj [(''timestamp'', JStr ''1970-01-01T00:00:00.000Z''),
                        (''savedAt'', JStr ''1970-01-01T00:00:00.000Z''),
                        (''communityPostFireReactions'', JArr [JStr ''p1''])]])])))"
    by (simp add: stringify_def driftHeap_def jsonReplacer_def replaceObject_def serReplaced_def serObject_def
        utc_epoch_text)
  have d: "decodeEncoded utcRuntime driftHeap (VRef 0) = Some (Inr (PObj
        [(''createdAt'', PDate 0),
         (''blockedUsers'', PArr []),
         (''journalEntries'',
            PArr [PObj [(''timestamp'', PDate 0),
                        (''savedAt'', PStr ''1970-01-01T00:00:00.000Z''),
                        (''communityPostFireReactions'', PSet [PStr ''p1''])]])]))"
    unfolding decodeEncoded_def s
    by (simp add: JSON_parse_def reviver_def dateKeys_def newSet_def utc_epoch_parse)
  show ?thesis unfolding d by (simp add: driftValue_def)
qed

subsection \<open>C2\<close>

text \<open>
  C2, as amended. For a remote record whose \<^verbatim>\<open>createdAt\<close> and \<^verbatim>\<open>startDate\<close> are timestamps
  or absent, the snapshot callback holds a projection in which: the id is the user's;
  \<^verbatim>\<open>displayName\<close> and \<^verbatim>\<open>email\<close> are the record's fields as they are, \<^verbatim>\<open>undefined\<close> when
  the record has none; the two flags, the commitment text, the blocked users and the
  three counters are the record's fields, or the data model's defaults when the field is
  absent or \<^verbatim>\<open>null\<close>; \<^verbatim>\<open>role\<close> is the record's, with \<^verbatim>\<open>null\<close> read as absent; \<^verbatim>\<open>photoURL\<close>
  is the record's when it is truthy and the avatar picked from the id otherwise;
  \<^verbatim>\<open>createdAt\<close> is the date of the record's timestamp, or the clock reading; and
  \<^verbatim>\<open>startDate\<close> is the date of the record's timestamp, or absent.
\<close>

theorem projection_of_remote_record:
  assumes "timestampOrAbsent (getField d ''createdAt'')"
    and "timestampOrAbsent (getField d ''startDate'')"
  shows "\<exists>st' p. onSnapshotExists opts now u d st = Inr st' \<and> userProfile st' = Some p
     \<and> readProp p ''uid'' = PStr (uid u)
     \<and> (\<forall>k \<in> set [''displayName'', ''email'']. readProp p k = getField d k)
     \<and> (\<forall>k \<in> set [''isAdmin'', ''isMuted'', ''commitmentDocument'', ''blockedUsers'',
                    ''emergencyIndex'', ''urgeIndex'', ''storyIndex''].
          readProp p k = (if getField d k = PUndefined \<or> getField d k = PNull
                          then dataModelDefault k else getField d k))
     \<and> readProp p ''role'' = (if getField d ''role'' = PNull then PUndefined else getField d ''role'')
     \<and> readProp p ''photoURL'' = (if truthy (getField d ''photoURL'') then getField d ''photoURL''
                                  else defaultAvatarUrl (uid u) opts)
     \<and> readProp p ''createdAt'' =
          (case getField d ''createdAt'' of PTimestamp t \<Rightarrow> PDate t | _ \<Rightarrow> PDate now)
     \<and> readProp p ''startDate'' =
          (case getField d ''startDate'' of PTimestamp t \<Rightarrow> PDate t | _ \<Rightarrow> PUndefined)"
proof -
  define d1 where "d1 = (if truthy (getField d ''photoURL'') then d
             else (''photoURL'', defaultAvatarUrl (uid u) opts) # d)"
  have g: "getField d1 k = getField d k" if "k \<noteq> ''photoURL''" for k
    using that by (simp add: d1_def getField_other)
  have ph: "getField d1 ''photoURL'' = (if truthy (getField d ''photoURL'')
      then getField d ''photoURL'' else defaultAvatarUrl (uid u) opts)"
    by (simp add: d1_def getField_same)
  have c: "timestampOrAbsent (getField d1 ''createdAt'')"
    and s: "timestampOrAbsent (getField d1 ''startDate'')"
    using assms by (simp_all add: g)
  obtain p where p: "profileData now (uid u) d1 = Inr p"
    using profileData_ok [OF c s] by blast
  note f = projection_fields [OF p c s]
  obtain st' where st': "onSnapshotExists opts now u d st = Inr st'" "userProfile st' = Some p"
    using onSnapshotExists_result [OF p [unfolded d1_def]] by simp
  have names: "readProp p ''displayName'' = getField d ''displayName''"
    "readProp p ''email'' = getField d ''email''"
    using f(2,3) by (simp_all add: g)
  have k1: "readProp p ''isAdmin'' = (if getField d ''isAdmin'' = PUndefined \<or>
      getField d ''isAdmin'' = PNull then dataModelDefault ''isAdmin'' else getField d ''isAdmin'')"
    using f(8) by (simp add: g nullish_def)
  have k2: "readProp p ''isMuted'' = (if getField d ''isMuted'' = PUndefined \<or>
      getField d ''isMuted'' = PNull then dataModelDefault ''isMuted'' else getField d ''isMuted'')"
    using f(9) by (simp add: g nullish_def)
  have k3: "readProp p ''commitmentDocument'' = (if getField d ''commitmentDocument'' = PUndefined \<or>
      getField d ''commitmentDocument'' = PNull then dataModelDefault ''commitmentDocument''
      else getField d ''commitmentDocument'')"
    using f(10) by (simp add: g nullish_def)
  have k4: "readProp p ''blockedUsers'' = (if getField d ''blockedUsers'' = PUndefined \<or>
      getField d ''blockedUsers'' = PNull then dataModelDefault ''blockedUsers''
      else getField d ''blockedUsers'')"
    using f(11) by (simp add: g nullish_def)
  have k5: "readProp p ''emergencyIndex'' = (if getField d ''emergencyIndex'' = PUndefined \<or>
      getField d ''emergencyIndex'' = PNull then dataModelDefault ''emergencyIndex''
      else getField d ''emergencyIndex'')"
    using f(12) by (simp add: g nullish_def)
  have k6: "readProp p ''urgeIndex'' = (if getField d ''urgeIndex'' = PUndefined \<or>
      getField d ''urgeIndex'' = PNull then dataModelDefault ''urgeIndex'' else getField d ''urgeIndex'')"
    using f(13) by (simp add: g nullish_def)
  have k7: "readProp p ''storyIndex'' = (if getField d ''storyIndex'' = PUndefined \<or>
      getField d ''storyIndex'' = PNull then dataModelDefault ''storyIndex'' else getField d ''storyIndex'')"
    using f(14) by (simp add: g nullish_def)
  have dflt: "\<forall>k \<in> set [''isAdmin'', ''isMuted'', ''commitmentDocument'', ''blockedUsers'',
                    ''emergencyIndex'', ''urgeIndex'', ''storyIndex''].
          readProp p k = (if getField d k = PUndefined \<or> getField d k = PNull
                          then dataModelDefault k else getField d k)"
    unfolding list.set ball_simps using k1 k2 k3 k4 k5 k6 k7 by (intro conjI TrueI)
  have role: "readProp p ''role'' = (if getField d ''role'' = PNull then PUndefined else getField d ''role'')"
    using f(7) by (simp add: g nullish_role)
  have photo: "readProp p ''photoURL'' = (if truthy (getField d ''photoURL'') then getField d ''photoURL''
                                  else defaultAvatarUrl (uid u) opts)"
    using f(4) ph by simp
  have created: "readProp p ''createdAt'' =
          (case getField d ''createdAt'' of PTimestamp t \<Rightarrow> PDate t | _ \<Rightarrow> PDate now)"
    using f(5) by (simp add: g)
  have start: "readProp p ''startDate'' =
          (case getField d ''startDate'' of PTimestamp t \<Rightarrow> PDate t | _ \<Rightarrow> PUndefined)"
    using f(6) by (simp add: g)
  have nm: "\<forall>k \<in> set [''displayName'', ''email'']. readProp p k = getField d k"
    unfolding list.set ball_simps using names by (intro conjI TrueI)
  from st' f(1) nm dflt role photo created start show ?thesis
    by (intro exI [of _ st'] exI [of _ p] conjI)
qed


theorem projection_of_remote_record_witness:
  "timestampOrAbsent (getField recordWithoutName ''createdAt'')
   \<and> timestampOrAbsent (getField recordWithoutName ''startDate'')
   \<and> (\<exists>st' p. onSnapshotExists avatarSamples 0 memberUser recordWithoutName initialState = Inr st'
        \<and> userProfile st' = Some p
        \<and> readProp p ''uid'' = PStr ''bXq7''
        \<and> readProp p ''displayName'' = PUndefined
        \<and> readProp p ''isAdmin'' = PBool False
        \<and> readProp p ''blockedUsers'' = PArr []
        \<and> readProp p ''storyIndex'' = PNum 0
        \<and> readProp p ''photoURL'' = PStr ''me.png''
        \<and> readProp p ''createdAt'' = PDate 5
        \<and> readProp p ''startDate'' = PUndefined)"
proof -
  from projection_of_remote_record [OF ts_recordWithoutName, of avatarSamples 0 memberUser initialState]
  obtain st' p where
    a: "onSnapshotExists avatarSamples 0 memberUser recordWithoutName initialState = Inr st'"
      "userProfile st' = Some p" "readProp p ''uid'' = PStr (uid memberUser)"
    and b: "\<forall>k \<in> set [''displayName'', ''email'']. readProp p k = getField recordWithoutName k"
    and c: "\<forall>k \<in> set [''isAdmin'', ''isMuted'', ''commitmentDocument'', ''blockedUsers'',
                    ''emergencyIndex'', ''urgeIndex'', ''storyIndex''].
          readProp p k = (if getField recordWithoutName k = PUndefined
                            \<or> getField recordWithoutName k = PNull
                          then dataModelDefault k else getField recordWithoutName k)"
    and d: "readProp p ''photoURL'' = (if truthy (getField recordWithoutName ''photoURL'')
              then getField recordWithoutName ''photoURL''
              else defaultAvatarUrl (uid memberUser) avatarSamples)"
      "readProp p ''createdAt'' =
          (case getField recordWithoutName ''createdAt'' of PTimestamp t \<Rightarrow> PDate t | _ \<Rightarrow> PDate 0)"
      "readProp p ''startDate'' =
          (case getField recordWithoutName ''startDate'' of PTimestamp t \<Rightarrow> PDate t | _ \<Rightarrow> PUndefined)"
    by blast
  have 1: "readProp p ''uid'' = PStr ''bXq7''" using a(3) by (simp add: memberUser_def)
  have 2: "readProp p ''displayName'' = PUndefined"
    using b [unfolded list.set ball_simps] by (simp add: recordWithoutName_def getField_def)
  note c' = c [unfolded list.set ball_simps]
  have 3: "readProp p ''isAdmin'' = PBool False"
    using c' by (simp add: recordWithoutName_def getField_def dataModelDefault_simps)
  have 4: "readProp p ''blockedUsers'' = PArr []"
    using c' by (simp add: recordWithoutName_def getField_def dataModelDefault_simps)
  have 5: "readProp p ''storyIndex'' = PNum 0"
    using c' by (simp add: recordWithoutName_def getField_def dataModelDefault_simps)
  have 6: "readProp p ''photoURL'' = PStr ''me.png''" "readProp p ''createdAt'' = PDate 5"
    "readProp p ''startDate'' = PUndefined"
    using d by (simp_all add: recordWithoutName_def getField_def)
  from ts_recordWithoutName a(1,2) 1 2 3 4 5 6 show ?thesis
    by (intro conjI exI [of _ st'] exI [of _ p])
qed

text \<open>
  C2 as stated fails: the projection of a record that has no \<^verbatim>\<open>displayName\<close> has none
  either; no default is substituted.
\<close>

theorem projection_displayName_not_defaulted:
  "onSnapshotExists avatarSamples 0 memberUser recordWithoutName initialState =
     Inr (initialState\<lparr>userProfile := Some (PObj
        [(''uid'', PStr ''bXq7''),
         (''displayName'', PUndefined),
         (''email'', PUndefined),
         (''photoURL'', PStr ''me.png''),
         (''createdAt'', PDate 5),
         (''startDate'', PUndefined),
         (''isAdmin'', PBool False),
         (''isMuted'', PBool False),
         (''role'', PUndefined),
         (''commitmentDocument'', PStr []),
         (''blockedUsers'', PArr []),
         (''emergencyIndex'', PNum 0),
         (''urgeIndex'', PNum 0),
         (''storyIndex'', PNum 0)]), loading := False\<rparr>)"
proof -
  have g: "getField recordWithoutName ''photoURL'' = PStr ''me.png''"
    "getField recordWithoutName ''createdAt'' = PTimestamp 5"
    "getField recordWithoutName ''displayName'' = PUndefined"
    "getField recordWithoutName ''email'' = PUndefined"
    "getField recordWithoutName ''startDate'' = PUndefined"
    "getField recordWithoutName ''isAdmin'' = PUndefined"
    "getField recordWithoutName ''isMuted'' = PUndefined"
    "getField recordWithoutName ''role'' = PUndefined"
    "getField recordWithoutName ''commitmentDocument'' = PUndefined"
    "getField recordWithoutName ''blockedUsers'' = PUndefined"
    "getField recordWithoutName ''emergencyIndex'' = PUndefined"
    "getField recordWithoutName ''urgeIndex'' = PUndefined"
    "getField recordWithoutName ''storyIndex'' = PUndefined"
    by (simp_all add: recordWithoutName_def getField_def)
  have p: "profileData 0 (uid memberUser) recordWithoutName = Inr (PObj
        [(''uid'', PStr ''bXq7''),
         (''displayName'', PUndefined),
         (''email'', PUndefined),
         (''photoURL'', PStr ''me.png''),
         (''createdAt'', PDate 5),
         (''startDate'', PUndefined),
         (''isAdmin'', PBool False),
         (''isMuted'', PBool False),
         (''role'', PUndefined),
         (''commitmentDocument'', PStr []),
         (''blockedUsers'', PArr []),
         (''emergencyIndex'', PNum 0),
         (''urgeIndex'', PNum 0),
         (''storyIndex'', PNum 0)])"
    unfolding profileData_ok [OF ts_recordWithoutName] g
    by (simp add: nullish_def memberUser_def)
  have t: "truthy (getField recordWithoutName ''photoURL'')" by (simp add: g)
  from onSnapshotExists_result [of 0 memberUser recordWithoutName avatarSamples _ initialState] p t
  show ?thesis by simp
qed

subsection \<open>C3\<close>

text \<open>
  C3, as amended. Circular safety: take a heap whose references all point to objects and
  in which every object with a \<^verbatim>\<open>toDate\<close> method answers a valid date, and an array or
  plain object \<open>a\<close> in it, however it shares or cycles. Then \<^verbatim>\<open>JSON.stringify\<close> with the
  replacer returns, throws nothing and yields a JSON text; once \<open>a\<close> has been serialised
  the replacer has it in \<open>seen\<close>; and an occurrence of \<open>a\<close> that the replacer has seen
  before is left out when it is the value of a property of an object, and is written
  \<^verbatim>\<open>null\<close> when it is an element of an array.
\<close>

theorem encode_circular_safe:
  assumes "closed h" and "toDateSafe h" and "map_of h a = Some ob" and "plainComposite ob"
  shows "(\<exists>j. stringify rt h (VRef a) = Some (Inr (Some j)))
       \<and> (\<forall>f stack seen r seen'.
            serProp rt f h stack seen (VRef a) = Some (Inr (r, seen')) \<longrightarrow> a \<in> seen')
       \<and> (\<forall>f stack seen k kvs. a \<in> seen \<longrightarrow>
            serFields (serProp rt (Suc f) h stack) seen ((k, VRef a) # kvs)
              = serFields (serProp rt (Suc f) h stack) seen kvs)
       \<and> (\<forall>f stack seen xs. a \<in> seen \<longrightarrow>
            serElems (serProp rt (Suc f) h stack) seen (VRef a # xs)
              = mapOutcome (\<lambda>js. JNull # js) (serElems (serProp rt (Suc f) h stack) seen xs))"
proof (intro conjI)
  have ok: "refOk h (VRef a)" using assms(3) by (simp add: refOk_def)
  obtain y where y: "serProp rt (Suc (Suc (length h))) h [] {} (VRef a) = Some y"
    using stringify_returns [of rt h "VRef a"]
    by (auto simp: stringify_def split: option.splits)
  have "\<forall>e. y \<noteq> Inl e"
    using serProp_no_throw [OF assms(1,2) _ ok, of "[]" "{}" rt "Suc (Suc (length h))"] y
    by auto
  then obtain r s where rs: "y = Inr (r, s)" by (cases y) auto
  from serProp_composite_text [OF _ assms(3,4)] y rs have "r \<noteq> None" by blast
  with y rs show "\<exists>j. stringify rt h (VRef a) = Some (Inr (Some j))"
    by (auto simp: stringify_def)
next
  from assms(4) have nj: "\<not> hasToJSON ob" by (cases ob rule: plainComposite.cases) simp_all
  from serProp_marks [OF _ assms(3) nj]
  show "\<forall>f stack seen r seen'.
      serProp rt f h stack seen (VRef a) = Some (Inr (r, seen')) \<longrightarrow> a \<in> seen'"
    by blast
next
  from assms(4) have nj: "\<not> hasToJSON ob" by (cases ob rule: plainComposite.cases) simp_all
  note tj = toJSON_keep [OF assms(3) nj, of rt]
  from serFields_revisit [OF _ tj]
  show "\<forall>f stack seen k kvs. a \<in> seen \<longrightarrow>
      serFields (serProp rt (Suc f) h stack) seen ((k, VRef a) # kvs)
        = serFields (serProp rt (Suc f) h stack) seen kvs"
    by blast
next
  from assms(4) have nj: "\<not> hasToJSON ob" by (cases ob rule: plainComposite.cases) simp_all
  note tj = toJSON_keep [OF assms(3) nj, of rt]
  from serElems_revisit [OF _ tj]
  show "\<forall>f stack seen xs. a \<in> seen \<longrightarrow>
      serElems (serProp rt (Suc f) h stack) seen (VRef a # xs)
        = mapOutcome (\<lambda>js. JNull # js) (serElems (serProp rt (Suc f) h stack) seen xs)"
    by blast
qed

lemma ring_eval: "stringify rt ringHeap (VRef 0) =
       Some (Inr (Some (JObj [(''name'', JStr ''a''), (''next'', JArr [JNull, JNum 7, JNull])])))"
  by (simp add: stringify_def ringHeap_def jsonReplacer_def replaceObject_def serReplaced_def
      serObject_def)

theorem encode_circular_safe_witness:
  "closed ringHeap \<and> toDateSafe ringHeap
   \<and> map_of ringHeap 0 = Some (OObject ObjectProto
        [(''name'', VStr ''a''), (''next'', VRef 1), (''self'', VRef 0)])
   \<and> stringify utcRuntime ringHeap (VRef 0) =
       Some (Inr (Some (JObj [(''name'', JStr ''a''), (''next'', JArr [JNull, JNum 7, JNull])])))
   \<and> serFields (serProp utcRuntime (Suc 0) ringHeap [0]) {0} [(''self'', VRef 0)]
       = Some (Inr ([], {0}))
   \<and> serElems (serProp utcRuntime (Suc 0) ringHeap [0]) {0} [VRef 0]
       = Some (Inr ([JNull], {0}))"
proof -
  have c: "closed ringHeap"
    by (simp add: closed_def ringHeap_def children_def refOk_def)
  have d: "toDateSafe ringHeap"
    by (simp add: toDateSafe_def ringHeap_def)
  have m: "map_of ringHeap 0 = Some (OObject ObjectProto
        [(''name'', VStr ''a''), (''next'', VRef 1), (''self'', VRef 0)])"
    by (simp add: ringHeap_def)
  note t = encode_circular_safe [OF c d m, of utcRuntime]
  from t have f: "serFields (serProp utcRuntime (Suc 0) ringHeap [0]) {0} [(''self'', VRef 0)]
       = serFields (serProp utcRuntime (Suc 0) ringHeap [0]) {0} []"
    by simp
  from t have e: "serElems (serProp utcRuntime (Suc 0) ringHeap [0]) {0} [VRef 0]
       = mapOutcome (\<lambda>js. JNull # js) (serElems (serProp utcRuntime (Suc 0) ringHeap [0]) {0} [])"
    by simp
  from c d m ring_eval [of utcRuntime] f e show ?thesis
    by (simp del: serProp.simps)
qed

text \<open>
  C3 as stated fails. The occurrence, inside the array, of the object and of the array
  that are being serialised is not left out: the text holds \<^verbatim>\<open>null\<close> in its place. And
  a value that holds itself and an object whose \<^verbatim>\<open>toDate\<close> answers an invalid date makes
  \<^verbatim>\<open>JSON.stringify\<close> throw the \<^verbatim>\<open>RangeError\<close> of \<^verbatim>\<open>toISOString\<close>, so no text is produced.
\<close>

theorem revisit_in_array_null_or_toDate_throws:
  "stringify utcRuntime ringHeap (VRef 0) =
       Some (Inr (Some (JObj [(''name'', JStr ''a''), (''next'', JArr [JNull, JNum 7, JNull])])))
   \<and> stringify utcRuntime badToDateHeap (VRef 0) = Some (Inl RangeError)"
  by (simp add: stringify_def ringHeap_def badToDateHeap_def jsonReplacer_def replaceObject_def
      serReplaced_def serObject_def)

subsection \<open>C4\<close>

text \<open>
  C4. Malformed local snapshot: when the local store holds under \<^verbatim>\<open>guestProfile\<close> a text
  that is no JSON and a guest signs in, the callback returns a state and throws
  nothing; the profile held, and seen by the caller, is the guest default derived from
  the identity id and the clock; and the local store holds the snapshot of that default
  in place of the malformed text.
\<close>

theorem malformed_snapshot_recovered:
  assumes "localStorage st ''guestProfile'' = Some (NotJson s)" and "isAnonymous u"
  shows "\<exists>st'. onAuthStateChanged rt now (Some u) st = Some (Inr st')
     \<and> userProfile st' = Some (guestProfile (uid u) now)
     \<and> currentProfile st' = Some (guestProfile (uid u) now)
     \<and> loading st' = False
     \<and> localStorage st' ''guestProfile'' = Some (JsonText (guestJson rt (uid u) now))"
  using assms
  by (simp add: onAuthStateChanged_def guestSignIn_def loadGuestProfile_def JSON_parse_def
      stringify_guest currentProfile_def)
     (simp add: guestProfile_def)

theorem malformed_snapshot_recovered_witness:
  "localStorage (initialState\<lparr>localStorage := (\<lambda>k. None)(''guestProfile'' \<mapsto> NotJson ''{oops'')\<rparr>)
      ''guestProfile'' = Some (NotJson ''{oops'')
   \<and> isAnonymous guestUser
   \<and> (\<exists>st'. onAuthStateChanged utcRuntime 0 (Some guestUser)
          (initialState\<lparr>localStorage := (\<lambda>k. None)(''guestProfile'' \<mapsto> NotJson ''{oops'')\<rparr>)
          = Some (Inr st')
        \<and> userProfile st' = Some (guestProfile ''abc12xyz'' 0)
        \<and> localStorage st' ''guestProfile'' = Some (JsonText (guestJson utcRuntime ''abc12xyz'' 0)))"
  using malformed_snapshot_recovered [of
      "initialState\<lparr>localStorage := (\<lambda>k. None)(''guestProfile'' \<mapsto> NotJson ''{oops'')\<rparr>"
      "''{oops''" guestUser utcRuntime 0]
  by (auto simp: guestUser_def)

subsection \<open>C5\<close>

text \<open>
  C5. Guest creation: identity \<^verbatim>\<open>abc12xyz\<close> signs in as a guest while the local store has
  no snapshot. The profile held has that id, a display name made of the guest label and
  the first five characters of the id, the three counters 0 and an empty set of
  reactions; the local store then holds a text that \<^verbatim>\<open>JSON.parse\<close> with the reviver
  turns back into the same profile, provided the host parses the ISO text of the clock
  reading back to it.
\<close>

theorem guest_creation_scenario:
  assumes "localStorage st ''guestProfile'' = None"
    and "dateParse rt (toISOString rt now) = Some now"
  shows "\<exists>st' p txt.
       onAuthStateChanged rt now (Some \<lparr>uid = ''abc12xyz'', isAnonymous = True\<rparr>) st = Some (Inr st')
     \<and> userProfile st' = Some p
     \<and> readProp p ''uid'' = PStr ''abc12xyz''
     \<and> readProp p ''displayName'' = PStr (guestLabel @ ''abc12'')
     \<and> readProp p ''emergencyIndex'' = PNum 0
     \<and> readProp p ''urgeIndex'' = PNum 0
     \<and> readProp p ''storyIndex'' = PNum 0
     \<and> readProp p ''communityPostFireReactions'' = PSet []
     \<and> localStorage st' ''guestProfile'' = Some txt
     \<and> JSON_parse rt txt = Inr p"
proof -
  let ?p = "guestProfile ''abc12xyz'' now"
  let ?st' = "st\<lparr>user := Some \<lparr>uid = ''abc12xyz'', isAnonymous = True\<rparr>,
      localStorage := (localStorage st)(''guestProfile'' \<mapsto> JsonText (guestJson rt ''abc12xyz'' now)),
      userProfile := Some ?p, loading := False\<rparr>"
  have 1: "onAuthStateChanged rt now (Some \<lparr>uid = ''abc12xyz'', isAnonymous = True\<rparr>) st
      = Some (Inr ?st')"
    using assms(1)
    by (simp add: onAuthStateChanged_def guestSignIn_def loadGuestProfile_def stringify_guest)
  have 2: "readProp ?p ''uid'' = PStr ''abc12xyz''"
    "readProp ?p ''displayName'' = PStr (guestLabel @ ''abc12'')"
    "readProp ?p ''emergencyIndex'' = PNum 0" "readProp ?p ''urgeIndex'' = PNum 0"
    "readProp ?p ''storyIndex'' = PNum 0" "readProp ?p ''communityPostFireReactions'' = PSet []"
    by (simp_all add: readProp_def guestProfile_def getField_def)
  have 3: "JSON_parse rt (JsonText (guestJson rt ''abc12xyz'' now)) = Inr ?p"
    using assms(2) by (rule parse_guest)
  have 4: "userProfile ?st' = Some ?p"
    "localStorage ?st' ''guestProfile'' = Some (JsonText (guestJson rt ''abc12xyz'' now))"
    by simp_all
  from 1 2 3 4 show ?thesis by blast
qed

theorem guest_creation_scenario_witness:
  "localStorage initialState ''guestProfile'' = None
   \<and> dateParse utcRuntime (toISOString utcRuntime 0) = Some 0
   \<and> (\<exists>st' p txt.
       onAuthStateChanged utcRuntime 0 (Some \<lparr>uid = ''abc12xyz'', isAnonymous = True\<rparr>) initialState
         = Some (Inr st')
     \<and> userProfile st' = Some p
     \<and> readProp p ''uid'' = PStr ''abc12xyz''
     \<and> readProp p ''displayName'' = PStr (guestLabel @ ''abc12'')
     \<and> readProp p ''communityPostFireReactions'' = PSet []
     \<and> localStorage st' ''guestProfile'' = Some txt
     \<and> JSON_parse utcRuntime txt = Inr p)"
proof -
  have a: "localStorage initialState ''guestProfile'' = None"
    by (simp add: initialState_def)
  from guest_creation_scenario [OF a utc_epoch] a utc_epoch show ?thesis by blast
qed

subsection \<open>C6\<close>

text \<open>
  C6. Missing avatar: for a remote record with no \<^verbatim>\<open>photoURL\<close> field (of a user with a
  non-empty id, a non-empty candidate list, and \<^verbatim>\<open>createdAt\<close> and \<^verbatim>\<open>startDate\<close> timestamps
  or absent), the projection held at once has the candidate at index (code of the id's
  first character) modulo the number of candidates as its avatar; one update of the
  identity provider's profile and one of the remote record are issued with that same
  value; and the handler of their failure writes to the console and changes neither the
  profile held nor the loading flag.
\<close>

theorem missing_avatar_backfilled:
  assumes "map_of d ''photoURL'' = None" and "uid u \<noteq> []" and "opts \<noteq> []"
    and "timestampOrAbsent (getField d ''createdAt'')"
    and "timestampOrAbsent (getField d ''startDate'')"
  shows "\<exists>st' p. onSnapshotExists opts now u d st = Inr st' \<and> userProfile st' = Some p
     \<and> readProp p ''photoURL'' = PStr (opts ! (of_char (hd (uid u)) mod length opts))
     \<and> requests st' = requests st @
          [UpdateProfile (uid u) (PStr (opts ! (of_char (hd (uid u)) mod length opts))),
           UpdateDoc (uid u) [(''photoURL'', PStr (opts ! (of_char (hd (uid u)) mod length opts)))]]
     \<and> userProfile (avatarAssignFailed st') = userProfile st'
     \<and> loading (avatarAssignFailed st') = loading st'
     \<and> console (avatarAssignFailed st') = console st' @ [''Failed to auto-assign avatar:'']"
proof -
  let ?pick = "PStr (opts ! (of_char (hd (uid u)) mod length opts))"
  let ?d = "(''photoURL'', ?pick) # d"
  have pick: "defaultAvatarUrl (uid u) opts = ?pick"
    using assms(2,3) by (rule defaultAvatarUrl_pick)
  have nt: "\<not> truthy (getField d ''photoURL'')"
    using assms(1) by (simp add: getField_def)
  have c: "timestampOrAbsent (getField ?d ''createdAt'')"
    and s: "timestampOrAbsent (getField ?d ''startDate'')"
    using assms(4,5) by (simp_all add: getField_other)
  obtain p where p: "profileData now (uid u) ?d = Inr p"
    using profileData_ok [OF c s] by blast
  have ph: "readProp p ''photoURL'' = ?pick"
    using projection_fields(4) [OF p c s] by (simp add: getField_same)
  let ?st' = "st\<lparr>requests := requests st @ [UpdateProfile (uid u) ?pick,
        UpdateDoc (uid u) [(''photoURL'', ?pick)]], userProfile := Some p, loading := False\<rparr>"
  have r: "onSnapshotExists opts now u d st = Inr ?st'"
    using onSnapshotExists_result [of now u d opts p st] p nt pick by simp
  have rest: "userProfile ?st' = Some p"
    "requests ?st' = requests st @ [UpdateProfile (uid u) ?pick, UpdateDoc (uid u) [(''photoURL'', ?pick)]]"
    "userProfile (avatarAssignFailed ?st') = userProfile ?st'"
    "loading (avatarAssignFailed ?st') = loading ?st'"
    "console (avatarAssignFailed ?st') = console ?st' @ [''Failed to auto-assign avatar:'']"
    by (simp_all add: avatarAssignFailed_def)
  from r ph rest show ?thesis
    by (intro exI [of _ ?st'] exI [of _ p] conjI)
qed

theorem missing_avatar_backfilled_witness:
  "map_of recordWithoutAvatar ''photoURL'' = None \<and> uid memberUser \<noteq> [] \<and> avatarSamples \<noteq> []
   \<and> (of_char (hd (uid memberUser)) :: nat) mod length avatarSamples = 2
   \<and> (\<exists>st' p. onSnapshotExists avatarSamples 0 memberUser recordWithoutAvatar initialState = Inr st'
        \<and> userProfile st' = Some p
        \<and> readProp p ''photoURL'' = PStr ''a2.png''
        \<and> requests st' = [UpdateProfile ''bXq7'' (PStr ''a2.png''),
                           UpdateDoc ''bXq7'' [(''photoURL'', PStr ''a2.png'')]])"
proof -
  have h: "map_of recordWithoutAvatar ''photoURL'' = None" "uid memberUser \<noteq> []"
    "avatarSamples \<noteq> []"
    by (simp_all add: recordWithoutAvatar_def memberUser_def avatarSamples_def)
  have i: "(of_char (hd (uid memberUser)) :: nat) mod length avatarSamples = 2"
    by (simp add: memberUser_def avatarSamples_def)
  have v: "uid memberUser = ''bXq7''" "requests initialState = []" "[] @ xs = xs" for xs :: "request list"
    by (simp_all add: memberUser_def initialState_def)
  have pk: "avatarSamples ! (of_char (hd ''bXq7'') mod length avatarSamples) = ''a2.png''"
    by (simp add: avatarSamples_def)
  note t = missing_avatar_backfilled [OF h ts_recordWithoutAvatar, of 0 initialState, unfolded v pk]
  then obtain st' p where
    "onSnapshotExists avatarSamples 0 memberUser recordWithoutAvatar initialState = Inr st'"
    "userProfile st' = Some p"
    "readProp p ''photoURL'' = PStr ''a2.png''"
    "requests st' = [UpdateProfile ''bXq7'' (PStr ''a2.png''),
                           UpdateDoc ''bXq7'' [(''photoURL'', PStr ''a2.png'')]]"
    by blast
  with h i show ?thesis by (intro conjI exI [of _ st'] exI [of _ p])
qed

subsection \<open>C7\<close>

text \<open>
  C7. The claim says that a field holding an instance of a type with no recognised shape
  is left out. \<^verbatim>\<open>Object.prototype.toString\<close> answers \<^verbatim>\<open>[object Object]\<close> for an instance of
  a class, so the replacer's test for a plain object lets it through: at this input the
  field \<^verbatim>\<open>ref\<close>, an instance of a class of the remote store's library, is written with its
  own properties, and only the \<^verbatim>\<open>Map\<close> in \<^verbatim>\<open>cache\<close> is left out.
\<close>

theorem class_instance_is_serialised:
  "stringify rt classInstanceHeap (VRef 0) =
     Some (Inr (Some (JObj [(''ref'', JObj [(''path'', JStr ''users/u1'')]),
                            (''urgeIndex'', JNum 1)])))"
  by (simp add: stringify_def classInstanceHeap_def jsonReplacer_def replaceObject_def serReplaced_def
      serObject_def)

subsection \<open>C8\<close>

text \<open>
  C8. Avatar pick: for a non-empty identity id and a non-empty candidate list the index
  is the code of the id's first character modulo the length of the list, it lies below
  that length, and the pick is the candidate at that index. Both are functions of the id
  and the list alone.
\<close>

theorem avatar_pick_deterministic:
  assumes "u \<noteq> []" and "opts \<noteq> []"
  shows "avatarIndex u opts = Some (of_char (hd u) mod length opts)
       \<and> of_char (hd u) mod length opts < length opts
       \<and> defaultAvatarUrl u opts = PStr (opts ! (of_char (hd u) mod length opts))"
  using assms by (cases u) (simp_all add: avatarIndex_def defaultAvatarUrl_def)

theorem avatar_pick_deterministic_witness:
  "''abc12xyz'' \<noteq> [] \<and> [''a0.png'', ''a1.png'', ''a2.png''] \<noteq> []
   \<and> avatarIndex ''abc12xyz'' [''a0.png'', ''a1.png'', ''a2.png''] = Some 1
   \<and> (1::nat) < length [''a0.png'', ''a1.png'', ''a2.png'']
   \<and> defaultAvatarUrl ''abc12xyz'' [''a0.png'', ''a1.png'', ''a2.png''] = PStr ''a1.png''"
  using avatar_pick_deterministic [of "''abc12xyz''" "[''a0.png'', ''a1.png'', ''a2.png'']"]
  by simp

subsection \<open>C9\<close>

text \<open>
  C9. Identity loss: whatever the state, the callback for the signed-out event returns
  a state that holds no profile, so that the caller sees none, and in which the local
  store has no entry under \<^verbatim>\<open>guestProfile\<close>; nothing is thrown.
\<close>

theorem identity_loss_discards_profile:
  "\<exists>st'. onAuthStateChanged rt now None st = Some (Inr st')
     \<and> userProfile st' = None \<and> currentProfile st' = None
     \<and> localStorage st' ''guestProfile'' = None \<and> loading st' = False"
  by (simp add: onAuthStateChanged_def currentProfile_def)

subsection \<open>C10\<close>

text \<open>
  C10, as amended. The replacer adds every object it is called with to \<open>seen\<close> before it
  looks at its shape, and the set only grows during one call of \<^verbatim>\<open>JSON.stringify\<close>. Once
  an object without a \<^verbatim>\<open>toJSON\<close> method (an array, a plain object, a set, an object with
  \<^verbatim>\<open>toDate\<close> that is no timestamp) has been serialised it is in the set, and every later
  occurrence of it serialises to \<^verbatim>\<open>undefined\<close>: it is left out when it is the value of a
  property and written \<^verbatim>\<open>null\<close> when it is an element of an array. A \<^verbatim>\<open>Date\<close> and a
  timestamp of the remote store never reach the replacer: \<^verbatim>\<open>toJSON\<close> has turned the one
  into its ISO text and the other into a new plain object before, so every occurrence of
  a shared \<^verbatim>\<open>Date\<close> or timestamp is written, whatever \<open>seen\<close> holds.
\<close>

theorem seen_set_never_cleared:
  "(jsonReplacer rt h seen (Existing (VRef a)) = Inr (q, s1) \<longrightarrow> a \<in> s1 \<and> seen \<subseteq> s1)
   \<and> (serProp rt f h stack seen v = Some (Inr (r, seen')) \<longrightarrow> seen \<subseteq> seen')
   \<and> (serProp rt f h stack seen (VRef a) = Some (Inr (r, seen')) \<and> map_of h a = Some ob
        \<and> \<not> hasToJSON ob \<longrightarrow> a \<in> seen')
   \<and> (a \<in> seen \<and> map_of h a = Some ob \<and> \<not> hasToJSON ob \<longrightarrow>
        serProp rt (Suc f) h stack seen (VRef a) = Some (Inr (None, seen))
        \<and> serFields (serProp rt (Suc f) h stack) seen ((k, VRef a) # kvs)
            = serFields (serProp rt (Suc f) h stack) seen kvs
        \<and> serElems (serProp rt (Suc f) h stack) seen (VRef a # xs)
            = mapOutcome (\<lambda>js. JNull # js) (serElems (serProp rt (Suc f) h stack) seen xs))
   \<and> (map_of h a = Some (ODate (Some t)) \<longrightarrow>
        serProp rt (Suc f) h stack seen (VRef a) =
          Some (Inr (Some (JStr (toISOString rt t)), seen)))
   \<and> (map_of h a = Some (OTimestamp s n) \<longrightarrow>
        serProp rt (Suc (Suc f)) h stack seen (VRef a) =
          Some (Inr (Some (JObj [(''type'', JStr ''firestore/timestamp/1.0''),
                                 (''seconds'', JNum s), (''nanoseconds'', JNum n)]), seen)))"
proof -
  have 1: "jsonReplacer rt h seen (Existing (VRef a)) = Inr (q, s1) \<longrightarrow> a \<in> s1 \<and> seen \<subseteq> s1"
    using replacer_adds by blast
  have 2: "serProp rt f h stack seen v = Some (Inr (r, seen')) \<longrightarrow> seen \<subseteq> seen'"
    using serProp_mono by blast
  have 3: "serProp rt f h stack seen (VRef a) = Some (Inr (r, seen')) \<and> map_of h a = Some ob
        \<and> \<not> hasToJSON ob \<longrightarrow> a \<in> seen'"
    using serProp_marks by blast
  have 4: "a \<in> seen \<and> map_of h a = Some ob \<and> \<not> hasToJSON ob \<longrightarrow>
        serProp rt (Suc f) h stack seen (VRef a) = Some (Inr (None, seen))
        \<and> serFields (serProp rt (Suc f) h stack) seen ((k, VRef a) # kvs)
            = serFields (serProp rt (Suc f) h stack) seen kvs
        \<and> serElems (serProp rt (Suc f) h stack) seen (VRef a # xs)
            = mapOutcome (\<lambda>js. JNull # js) (serElems (serProp rt (Suc f) h stack) seen xs)"
  proof
    assume a: "a \<in> seen \<and> map_of h a = Some ob \<and> \<not> hasToJSON ob"
    then have tj: "toJSON rt h (VRef a) = Existing (VRef a)" using toJSON_keep by blast
    from a have s: "a \<in> seen" by simp
    from serProp_revisit [OF s tj] serFields_revisit [OF s tj] serElems_revisit [OF s tj]
    show "serProp rt (Suc f) h stack seen (VRef a) = Some (Inr (None, seen))
        \<and> serFields (serProp rt (Suc f) h stack) seen ((k, VRef a) # kvs)
            = serFields (serProp rt (Suc f) h stack) seen kvs
        \<and> serElems (serProp rt (Suc f) h stack) seen (VRef a # xs)
            = mapOutcome (\<lambda>js. JNull # js) (serElems (serProp rt (Suc f) h stack) seen xs)"
      by (intro conjI)
  qed
  have 5: "map_of h a = Some (ODate (Some t)) \<longrightarrow>
        serProp rt (Suc f) h stack seen (VRef a) =
          Some (Inr (Some (JStr (toISOString rt t)), seen))"
    using serProp_date by blast
  have 6: "map_of h a = Some (OTimestamp s n) \<longrightarrow>
        serProp rt (Suc (Suc f)) h stack seen (VRef a) =
          Some (Inr (Some (JObj [(''type'', JStr ''firestore/timestamp/1.0''),
                                 (''seconds'', JNum s), (''nanoseconds'', JNum n)]), seen))"
    using serProp_timestamp by blast
  from 1 2 3 4 5 6 show ?thesis by (intro conjI)
qed

theorem seen_set_never_cleared_witness:
  "map_of sharedSetHeap 1 = Some (OSet [VStr ''p1'']) \<and> \<not> hasToJSON (OSet [VStr ''p1''])
   \<and> serProp utcRuntime (Suc (Suc 0)) sharedSetHeap [0] {0} (VRef 1)
       = Some (Inr (Some (JArr [JStr ''p1'']), {0, 1}))
   \<and> serProp utcRuntime (Suc (Suc 0)) sharedSetHeap [0] {0, 1} (VRef 1)
       = Some (Inr (None, {0, 1}))
   \<and> serFields (serProp utcRuntime (Suc (Suc 0)) sharedSetHeap [0]) {0, 1} [(''copy'', VRef 1)]
       = Some (Inr ([], {0, 1}))
   \<and> serElems (serProp utcRuntime (Suc (Suc 0)) sharedSetHeap [0]) {0, 1} [VRef 1]
       = Some (Inr ([JNull], {0, 1}))
   \<and> stringify utcRuntime sharedSetHeap (VRef 0) =
       Some (Inr (Some (JObj [(''communityPostFireReactions'', JArr [JStr ''p1''])])))"
proof -
  have m: "map_of sharedSetHeap 1 = Some (OSet [VStr ''p1''])"
    by (simp add: sharedSetHeap_def)
  have e: "serProp utcRuntime (Suc (Suc 0)) sharedSetHeap [0] {0} (VRef 1)
       = Some (Inr (Some (JArr [JStr ''p1'']), {0, 1}))"
    by (simp add: sharedSetHeap_def jsonReplacer_def replaceObject_def serReplaced_def
        serObject_def insert_commute)
  note t = seen_set_never_cleared [where rt = utcRuntime and h = sharedSetHeap and seen = "{0, 1}"
      and a = 1 and ob = "OSet [VStr ''p1'']" and f = "Suc 0" and stack = "[0]"]
  from t [where k = "''copy''" and kvs = "[]" and xs = "[]"] m
  have r: "serProp utcRuntime (Suc (Suc 0)) sharedSetHeap [0] {0, 1} (VRef 1)
       = Some (Inr (None, {0, 1}))"
    and f: "serFields (serProp utcRuntime (Suc (Suc 0)) sharedSetHeap [0]) {0, 1} [(''copy'', VRef 1)]
       = serFields (serProp utcRuntime (Suc (Suc 0)) sharedSetHeap [0]) {0, 1} []"
    and l: "serElems (serProp utcRuntime (Suc (Suc 0)) sharedSetHeap [0]) {0, 1} [VRef 1]
       = mapOutcome (\<lambda>js. JNull # js)
           (serElems (serProp utcRuntime (Suc (Suc 0)) sharedSetHeap [0]) {0, 1} [])"
    by simp_all
  from m e r f l sharedSet_eval [of utcRuntime] show ?thesis
    by (simp del: serProp.simps)
qed

text \<open>
  C10 as stated fails for the values that have a \<^verbatim>\<open>toJSON\<close> method: an object whose
  fields \<^verbatim>\<open>createdAt\<close> and \<^verbatim>\<open>startDate\<close> reference the same \<^verbatim>\<open>Date\<close>, or the same timestamp
  of the remote store, is written with both fields.
\<close>

theorem shared_date_encoded_twice:
  "stringify utcRuntime sharedDateHeap (VRef 0) =
     Some (Inr (Some (JObj [(''createdAt'', JStr ''1970-01-01T00:00:00.000Z''),
                            (''startDate'', JStr ''1970-01-01T00:00:00.000Z'')])))
   \<and> stringify utcRuntime sharedTimestampHeap (VRef 0) =
     Some (Inr (Some (JObj
       [(''createdAt'', JObj [(''type'', JStr ''firestore/timestamp/1.0''),
                              (''seconds'', JNum 5), (''nanoseconds'', JNum 0)]),
        (''startDate'', JObj [(''type'', JStr ''firestore/timestamp/1.0''),
                              (''seconds'', JNum 5), (''nanoseconds'', JNum 0)])])))"
  by (simp add: stringify_def sharedDateHeap_def sharedTimestampHeap_def jsonReplacer_def
      replaceObject_def serReplaced_def serObject_def utc_epoch_text)


end
